theory Spec2Isabelle
  imports Main "HOL-Library.Word"
begin

unbundle bit_operations_syntax

section \<open>Undefined behaviour as a value\<close>

text \<open>
  The library checks nothing at run time: an index outside the block array, a shift by
  a negative amount or a signed overflow is undefined behaviour in C++. The model
  makes each of them a value, so that a function of the model returns either the
  kind of undefined behaviour it ran into (\<open>Inl\<close>) or its result (\<open>Inr\<close>).
\<close>

datatype ub = OutOfBounds | NullPointer | BadShift | SignedOverflow

definition andThen :: "ub + 'a \<Rightarrow> ('a \<Rightarrow> ub + 'b) \<Rightarrow> ub + 'b" where
  "andThen m f = (case m of Inl e \<Rightarrow> Inl e | Inr x \<Rightarrow> f x)"

text \<open>\<open>a[i]\<close> as an rvalue.\<close>

definition at :: "'a list \<Rightarrow> nat \<Rightarrow> ub + 'a" where
  "at a i = (if i < length a then Inr (a ! i) else Inl OutOfBounds)"

text \<open>\<open>a[i] = v\<close>.\<close>

definition put :: "'a list \<Rightarrow> nat \<Rightarrow> 'a \<Rightarrow> ub + 'a list" where
  "put a i v = (if i < length a then Inr (a[i := v]) else Inl OutOfBounds)"

text \<open>A compound assignment \<open>a[i] op= x\<close>, with \<open>f\<close> the function \<open>\<lambda>w. w op x\<close>.\<close>

definition modify :: "'a list \<Rightarrow> nat \<Rightarrow> ('a \<Rightarrow> 'a) \<Rightarrow> ub + 'a list" where
  "modify a i f = (if i < length a then Inr (a[i := f (a ! i)]) else Inl OutOfBounds)"

text \<open>
  \<open>for (i = lo; i < hi; ++i) body(i)\<close> over a state \<open>s\<close>, where the body does not
  assign to \<open>i\<close>, \<open>lo\<close> or \<open>hi\<close>. The loop stops at the first undefined behaviour.
\<close>

function for_loop :: "nat \<Rightarrow> nat \<Rightarrow> (nat \<Rightarrow> 's \<Rightarrow> ub + 's) \<Rightarrow> 's \<Rightarrow> ub + 's" where
  "for_loop i hi body s =
     (if i < hi then andThen (body i s) (for_loop (Suc i) hi body) else Inr s)"
  by pat_completeness auto
termination
  by (relation "measure (\<lambda>(i, hi, body, s). hi - i)") auto

declare for_loop.simps [simp del]

text \<open>
  The same loop when the body may execute \<open>return\<close>: the body yields \<open>Return r\<close> to
  leave the enclosing function with \<open>r\<close>, or \<open>Next s\<close> to go on with state \<open>s\<close>.
\<close>

datatype ('r, 's) flow = Return 'r | Next 's

function for_loop_ret ::
  "nat \<Rightarrow> nat \<Rightarrow> (nat \<Rightarrow> 's \<Rightarrow> ub + ('r, 's) flow) \<Rightarrow> 's \<Rightarrow> ub + ('r, 's) flow" where
  "for_loop_ret i hi body s =
     (if i < hi
      then andThen (body i s)
             (\<lambda>x. case x of Return r \<Rightarrow> Inr (Return r)
                            | Next s' \<Rightarrow> for_loop_ret (Suc i) hi body s')
      else Inr (Next s))"
  by pat_completeness auto
termination
  by (relation "measure (\<lambda>(i, hi, body, s). hi - i)") auto

declare for_loop_ret.simps [simp del]

text \<open>
  Arithmetic of \<open>std::size_t\<close> (64 bits) and of \<open>uint8_t\<close> where the code can wrap:
  \<open>++\<close>, \<open>--\<close> and \<open>-\<close> on values below \<open>2 ^ 64\<close> (\<open>2 ^ 8\<close>).
\<close>

definition size_inc :: "nat \<Rightarrow> nat" where
  "size_inc n = (n + 1) mod 2 ^ 64"

definition size_dec :: "nat \<Rightarrow> nat" where
  "size_dec n = (n + 2 ^ 64 - 1) mod 2 ^ 64"

definition size_sub :: "nat \<Rightarrow> nat \<Rightarrow> nat" where
  "size_sub a b = (a + 2 ^ 64 - b) mod 2 ^ 64"

definition uint8_inc :: "nat \<Rightarrow> nat" where
  "uint8_inc n = (n + 1) mod 2 ^ 8"

definition uint8_dec :: "nat \<Rightarrow> nat" where
  "uint8_dec n = (n + 2 ^ 8 - 1) mod 2 ^ 8"

text \<open>
  \<open>BlockType{1} << k\<close> for a shift count \<open>k\<close> of type \<open>int\<close>. A block type narrower
  than \<open>int\<close> is promoted to \<open>int\<close> (32 bits) first; the shift is undefined for a
  negative count and for a count that reaches the width of the promoted type. The
  result is then stored in a block, that is, truncated.
\<close>

definition shl_one :: "int \<Rightarrow> ub + 'a::len word" where
  "shl_one k =
     (if k < 0 \<or> int (max 32 LENGTH('a)) \<le> k then Inl BadShift
      else Inr (push_bit (nat k) 1))"

text \<open>
  \<open>(1 << p) - 1\<close>, computed in \<open>int\<close> and converted to the block type: the shift
  count must stay below 32, and \<open>(1 << 31) - 1\<close> overflows \<open>int\<close>.
\<close>

definition low_mask :: "nat \<Rightarrow> ub + 'a::len word" where
  "low_mask p =
     (if 32 \<le> p then Inl BadShift
      else if p = 31 then Inl SignedOverflow
      else Inr (word_of_int (2 ^ p - 1)))"

subsection \<open>Bulk memory operations\<close>

text \<open>
  \<open>::memset(a + off, c, n)\<close> on an array of blocks: \<open>n\<close> counts bytes, a block has
  \<open>sizeof(BlockType) = LENGTH('a) div 8\<close> of them. Writing beyond the array is
  undefined. When \<open>n\<close> is not a multiple of \<open>sizeof(BlockType)\<close> the last block is
  written in part; its bytes are taken in little-endian order (the lowest byte first
  in memory), which only matters for block types wider than a byte.
\<close>

fun rep_byte :: "nat \<Rightarrow> 8 word \<Rightarrow> 'a::len word" where
  "rep_byte 0 c = 0"
| "rep_byte (Suc k) c = push_bit 8 (rep_byte k c) OR ucast c"

definition memset :: "'a::len word list \<Rightarrow> nat \<Rightarrow> 8 word \<Rightarrow> nat \<Rightarrow> ub + 'a word list" where
  "memset a off c n =
     (let s = LENGTH('a) div 8; full = n div s; r = n mod s in
      if length a * s < off * s + n then Inl OutOfBounds
      else Inr (take off a @ replicate full (rep_byte s c) @
                (if r = 0 then []
                 else [(a ! (off + full)) AND NOT (mask (8 * r)) OR rep_byte r c]) @
                drop (off + full + (if r = 0 then 0 else 1)) a))"

text \<open>\<open>std::copy(src, src + n, dst)\<close>: reads \<open>n\<close> blocks of \<open>src\<close>, writes \<open>n\<close> blocks
  of \<open>dst\<close>.\<close>

definition copy_blocks :: "'a list \<Rightarrow> nat \<Rightarrow> 'a list \<Rightarrow> ub + 'a list" where
  "copy_blocks src n dst =
     (if n \<le> length src \<and> n \<le> length dst then Inr (take n src @ drop n dst)
      else Inl OutOfBounds)"

text \<open>
  \<open>new BlockType[n]\<close>: \<open>n\<close> blocks of indeterminate content. The content is the
  parameter \<open>junk\<close> (block \<open>k\<close> of a fresh array holds \<open>junk k\<close>), so that what is
  proved holds for whatever the allocator returns. Allocation is taken to succeed.
\<close>

definition new_array :: "(nat \<Rightarrow> 'a) \<Rightarrow> nat \<Rightarrow> 'a list" where
  "new_array junk n = map junk [0..<n]"

section \<open>The fixed-size bitset\<close>

text \<open>
  \<open>template <unsigned_integer BlockType, std::size_t Size> class bitset\<close>: the block
  type is the type \<open>'a word\<close>, its width \<open>sizeof(BlockType) * 8\<close> is \<open>LENGTH('a)\<close>
  (\<open>m_block_size\<close>) and \<open>sizeof(BlockType)\<close> is \<open>LENGTH('a) div 8\<close>. The template
  parameter \<open>Size\<close> is a field of the record; \<open>m_data\<close> is the only data member.
  Bit indices and sizes are \<open>std::size_t\<close>; they are natural numbers here, and
  wrap-around is written out where the code can reach it.
\<close>

record (overloaded) 'a bitset =
  Size :: nat
  m_data :: "'a word list"

definition m_full_storage_size :: "'a::len bitset \<Rightarrow> nat" where
  "m_full_storage_size b = Size b div LENGTH('a)"

definition m_partial_size :: "'a::len bitset \<Rightarrow> nat" where
  "m_partial_size b = Size b mod LENGTH('a)"

definition m_storage_size :: "'a::len bitset \<Rightarrow> nat" where
  "m_storage_size b = Size b div LENGTH('a) + (if m_partial_size b \<noteq> 0 then 1 else 0)"

text \<open>The member \<open>BlockType m_data[m_storage_size]\<close> has \<open>m_storage_size\<close> blocks.\<close>

definition bitset_wf :: "'a::len bitset \<Rightarrow> bool" where
  "bitset_wf b \<longleftrightarrow> length (m_data b) = m_storage_size b"

text \<open>The default constructor, \<open>m_data{ 0 }\<close>: every block is zero.\<close>

definition bitset_empty :: "nat \<Rightarrow> 'a::len bitset" where
  "bitset_empty n =
     \<lparr>Size = n,
      m_data = replicate (n div LENGTH('a) + (if n mod LENGTH('a) \<noteq> 0 then 1 else 0)) 0\<rparr>"

definition set_data :: "'a bitset \<Rightarrow> ub + 'a word list \<Rightarrow> ub + 'a bitset" where
  "set_data b r = andThen r (\<lambda>d. Inr (b\<lparr>m_data := d\<rparr>))"

subsection \<open>Single-bit operations\<close>

text \<open>\<open>test(index)\<close>: the block ANDed with \<open>BlockType{1} << index % m_block_size\<close>,
  converted to \<open>bool\<close>.\<close>

definition bitset_test :: "nat \<Rightarrow> 'a::len bitset \<Rightarrow> ub + bool" where
  "bitset_test index b =
     andThen (at (m_data b) (index div LENGTH('a)))
       (\<lambda>w. Inr (w AND push_bit (index mod LENGTH('a)) 1 \<noteq> 0))"

text \<open>\<open>set(index, value)\<close>.\<close>

definition bitset_set_value :: "nat \<Rightarrow> bool \<Rightarrow> 'a::len bitset \<Rightarrow> ub + 'a bitset" where
  "bitset_set_value index v b =
     (if v
      then set_data b (modify (m_data b) (index div LENGTH('a))
             (\<lambda>w. w OR push_bit (index mod LENGTH('a)) 1))
      else set_data b (modify (m_data b) (index div LENGTH('a))
             (\<lambda>w. w AND NOT (push_bit (index mod LENGTH('a)) 1))))"

text \<open>\<open>set(index)\<close>.\<close>

definition bitset_set :: "nat \<Rightarrow> 'a::len bitset \<Rightarrow> ub + 'a bitset" where
  "bitset_set index b =
     set_data b (modify (m_data b) (index div LENGTH('a))
       (\<lambda>w. w OR push_bit (index mod LENGTH('a)) 1))"

text \<open>\<open>clear(index)\<close>.\<close>

definition bitset_clear :: "nat \<Rightarrow> 'a::len bitset \<Rightarrow> ub + 'a bitset" where
  "bitset_clear index b =
     set_data b (modify (m_data b) (index div LENGTH('a))
       (\<lambda>w. w AND NOT (push_bit (index mod LENGTH('a)) 1)))"

text \<open>\<open>flip(index)\<close>.\<close>

definition bitset_flip :: "nat \<Rightarrow> 'a::len bitset \<Rightarrow> ub + 'a bitset" where
  "bitset_flip index b =
     set_data b (modify (m_data b) (index div LENGTH('a))
       (\<lambda>w. w XOR push_bit (index mod LENGTH('a)) 1))"

subsection \<open>Filling, counting and ranges\<close>

text \<open>
  \<open>set()\<close> and \<open>clear()\<close> branch on \<open>std::is_constant_evaluated()\<close>: a loop over
  the blocks during constant evaluation, \<open>memset\<close> over the whole array at run time.
  The flag is a parameter of the model.
\<close>

definition bitset_set_all :: "bool \<Rightarrow> 'a::len bitset \<Rightarrow> ub + 'a bitset" where
  "bitset_set_all is_constant_evaluated b =
     (if is_constant_evaluated
      then Inr (b\<lparr>m_data := map (\<lambda>i. - 1) (m_data b)\<rparr>)
      else set_data b (memset (m_data b) 0 255 (m_storage_size b * (LENGTH('a) div 8))))"

definition bitset_clear_all :: "bool \<Rightarrow> 'a::len bitset \<Rightarrow> ub + 'a bitset" where
  "bitset_clear_all is_constant_evaluated b =
     (if is_constant_evaluated
      then Inr (b\<lparr>m_data := map (\<lambda>i. 0) (m_data b)\<rparr>)
      else set_data b (memset (m_data b) 0 0 (m_storage_size b * (LENGTH('a) div 8))))"

text \<open>The inner loop of \<open>count()\<close>: \<open>while (j) { j &= j - 1; ++count; }\<close>.\<close>

function count_while :: "'a::len word \<Rightarrow> nat \<Rightarrow> nat" where
  "count_while j count = (if j \<noteq> 0 then count_while (j AND (j - 1)) (count + 1) else count)"
  by pat_completeness auto
termination
proof (relation "measure (\<lambda>(j, count). unat j)")
  show "wf (measure (\<lambda>(j :: 'a word, count :: nat). unat j))"
    by simp
next
  fix j :: "'a word" and count :: nat
  assume "j \<noteq> 0"
  then have "j - 1 < j"
    by (simp add: word_less_nat_alt unat_minus_one unat_gt_0)
  moreover have "j AND (j - 1) \<le> j - 1"
    by (rule word_and_le1)
  ultimately have "j AND (j - 1) < j"
    by simp
  then show "((j AND (j - 1), count + 1), (j, count)) \<in> measure (\<lambda>(j, count). unat j)"
    by (simp add: word_less_nat_alt)
qed

declare count_while.simps [simp del]

text \<open>\<open>count()\<close>: every block of the array, the trailing one included.\<close>

definition bitset_count :: "'a::len bitset \<Rightarrow> ub + nat" where
  "bitset_count b =
     for_loop 0 (m_storage_size b)
       (\<lambda>i count. andThen (at (m_data b) i) (\<lambda>j. Inr (count_while j count))) 0"

text \<open>
  \<open>set_range(begin, end)\<close>. The parameters \<open>begin\<close> and \<open>end\<close> are \<open>begin_idx\<close> and
  \<open>end_idx\<close> here. \<open>to_add\<close> and \<open>to_sub\<close> are the \<open>uint8_t\<close> locals of the source; the
  byte count of the \<open>memset\<close> is computed in \<open>std::size_t\<close> and can wrap. The array is
  a parameter, since the dynamic bitset runs the same code on its heap array.
\<close>

definition set_bits :: "nat \<Rightarrow> nat \<Rightarrow> nat \<Rightarrow> 'a::len word list \<Rightarrow> ub + 'a word list" where
  "set_bits block lo hi a =
     for_loop lo hi (\<lambda>i a. modify a block (\<lambda>w. w OR push_bit i 1)) a"

definition set_range_blocks ::
  "bool \<Rightarrow> nat \<Rightarrow> nat \<Rightarrow> 'a::len word list \<Rightarrow> ub + 'a word list" where
  "set_range_blocks is_constant_evaluated begin_idx end_idx a =
     (let W = LENGTH('a) in
      andThen
        (if begin_idx mod W \<noteq> 0
         then let end_bit = (if begin_idx div W = end_idx div W then end_idx mod W else W)
              in andThen (set_bits (begin_idx div W) (begin_idx mod W) end_bit a)
                   (\<lambda>a1. Inr (1, a1))
         else Inr (0, a))
        (\<lambda>(to_add, a1).
           andThen
             (if end_idx mod W \<noteq> 0 \<and> begin_idx div W \<noteq> end_idx div W
              then andThen (set_bits (end_idx div W) 0 (end_idx mod W) a1) (\<lambda>a2. Inr (1, a2))
              else Inr (0, a1))
             (\<lambda>(to_sub, a2).
                if is_constant_evaluated
                then for_loop (begin_idx div W + to_add) (end_idx div W) (\<lambda>i a. put a i (- 1)) a2
                else memset a2 (begin_idx div W + to_add) 255
                       (size_sub (size_sub end_idx begin_idx div W * (W div 8)) to_sub))))"

definition bitset_set_range :: "bool \<Rightarrow> nat \<Rightarrow> nat \<Rightarrow> 'a::len bitset \<Rightarrow> ub + 'a bitset" where
  "bitset_set_range is_constant_evaluated begin_idx end_idx b =
     set_data b (set_range_blocks is_constant_evaluated begin_idx end_idx (m_data b))"

subsection \<open>Comparison\<close>

text \<open>\<open>operator==\<close> and \<open>operator!=\<close> between bitsets of the same type and size.\<close>

definition bitset_eq :: "'a::len bitset \<Rightarrow> 'a bitset \<Rightarrow> ub + bool" where
  "bitset_eq b other =
     andThen
       (for_loop_ret 0 (m_full_storage_size b)
          (\<lambda>i u. andThen (at (m_data b) i) (\<lambda>x. andThen (at (m_data other) i)
             (\<lambda>y. Inr (if x \<noteq> y then Return False else Next u)))) ())
       (\<lambda>x. case x of
          Return r \<Rightarrow> Inr r
        | Next u \<Rightarrow>
            if m_partial_size b \<noteq> 0
            then andThen (low_mask (m_partial_size b)) (\<lambda>mask.
                 andThen (at (m_data b) (size_dec (m_storage_size b))) (\<lambda>x.
                 andThen (at (m_data other) (size_dec (m_storage_size b))) (\<lambda>y.
                   Inr (\<not> ((x AND mask) \<noteq> (y AND mask))))))
            else Inr True)"

definition bitset_ne :: "'a::len bitset \<Rightarrow> 'a bitset \<Rightarrow> ub + bool" where
  "bitset_ne b other =
     andThen
       (for_loop_ret 0 (m_full_storage_size b)
          (\<lambda>i u. andThen (at (m_data b) i) (\<lambda>x. andThen (at (m_data other) i)
             (\<lambda>y. Inr (if x = y then Return False else Next u)))) ())
       (\<lambda>x. case x of
          Return r \<Rightarrow> Inr r
        | Next u \<Rightarrow>
            if m_partial_size b \<noteq> 0
            then andThen (low_mask (m_partial_size b)) (\<lambda>mask.
                 andThen (at (m_data b) (size_dec (m_storage_size b))) (\<lambda>x.
                 andThen (at (m_data other) (size_dec (m_storage_size b))) (\<lambda>y.
                   Inr (\<not> ((x AND mask) = (y AND mask))))))
            else Inr True)"

subsection \<open>Left shift\<close>

text \<open>
  \<open>operator<<\<close> builds its result in a fresh, zero-initialised bitset and reads the
  blocks of \<open>*this\<close>. \<open>block_shift + 1\<close> and the indices are \<open>std::size_t\<close> and stay
  in range for every shift amount.
\<close>

definition bitset_shl :: "nat \<Rightarrow> 'a::len bitset \<Rightarrow> ub + 'a bitset" where
  "bitset_shl shift b =
     (let result = bitset_empty (Size b) :: 'a bitset;
          block_shift = shift div LENGTH('a);
          bit_shift = shift mod LENGTH('a)
      in set_data result
           (for_loop 0 (m_storage_size b)
              (\<lambda>i r.
                 andThen
                   (if block_shift \<le> i
                    then andThen (at (m_data b) (i - block_shift))
                           (\<lambda>w. put r i (push_bit bit_shift w))
                    else put r i 0)
                   (\<lambda>r1.
                      if 0 < bit_shift \<and> block_shift + 1 \<le> i
                      then andThen (at (m_data b) (i - block_shift - 1))
                             (\<lambda>w. modify r1 i (\<lambda>v. v OR drop_bit (LENGTH('a) - bit_shift) w))
                      else Inr r1))
              (m_data result)))"

text \<open>\<open>operator<<=\<close> runs the same loop on \<open>m_data\<close> itself: every read sees the
  blocks already written by earlier iterations.\<close>

definition bitset_shl_assign :: "nat \<Rightarrow> 'a::len bitset \<Rightarrow> ub + 'a bitset" where
  "bitset_shl_assign shift b =
     (let block_shift = shift div LENGTH('a);
          bit_shift = shift mod LENGTH('a)
      in set_data b
           (for_loop 0 (m_storage_size b)
              (\<lambda>i d.
                 andThen
                   (if block_shift \<le> i
                    then andThen (at d (i - block_shift))
                           (\<lambda>w. put d i (push_bit bit_shift w))
                    else put d i 0)
                   (\<lambda>d1.
                      if 0 < bit_shift \<and> block_shift + 1 \<le> i
                      then andThen (at d1 (i - block_shift - 1))
                             (\<lambda>w. modify d1 i (\<lambda>v. v OR drop_bit (LENGTH('a) - bit_shift) w))
                      else Inr d1))
              (m_data b)))"

subsection \<open>Strings\<close>

text \<open>
  \<open>_from_string(str, set_chr)\<close>: one character per bit, block by block; the
  \<open>return\<close> inside the inner loop leaves the function when the string is exhausted.
\<close>

definition bitset_from_string :: "string \<Rightarrow> char \<Rightarrow> 'a::len bitset \<Rightarrow> ub + 'a bitset" where
  "bitset_from_string str set_chr b =
     set_data b
       (andThen
          (for_loop_ret 0 (m_storage_size b)
             (\<lambda>i a. for_loop_ret 0 LENGTH('a)
                (\<lambda>j a.
                   if length str \<le> i * LENGTH('a) + j then Inr (Return a)
                   else andThen (at str (i * LENGTH('a) + j))
                          (\<lambda>c. andThen
                             (modify a i (\<lambda>w. w OR (if c = set_chr then push_bit j 1 else 0)))
                             (\<lambda>a1. Inr (Next a1))))
                a)
             (m_data b))
          (\<lambda>x. Inr (case x of Return a \<Rightarrow> a | Next a \<Rightarrow> a)))"

text \<open>The constructor \<open>bitset(const std::basic_string<Elem>& str, set_chr)\<close>:
  \<open>m_data{ 0 }\<close>, then \<open>_from_string\<close>.\<close>

definition bitset_of_string :: "nat \<Rightarrow> string \<Rightarrow> char \<Rightarrow> ub + 'a::len bitset" where
  "bitset_of_string n str set_chr = bitset_from_string str set_chr (bitset_empty n)"

text \<open>
  \<open>to_string(set_chr, rst_chr)\<close>. The result starts as \<open>Size + 1\<close> characters of value
  0; the first loop writes the characters of the full blocks, the second those of the
  partial block, reading \<open>m_data[i]\<close> for the bit index \<open>i\<close>.
\<close>

definition bitset_to_string :: "char \<Rightarrow> char \<Rightarrow> 'a::len bitset \<Rightarrow> ub + string" where
  "bitset_to_string set_chr rst_chr b =
     (let result = replicate (Size b + 1) (CHR 0x00) in
      andThen
        (for_loop 0 (m_storage_size b - (if m_partial_size b \<noteq> 0 then 1 else 0))
           (\<lambda>i res. for_loop 0 LENGTH('a)
              (\<lambda>j res. andThen (at (m_data b) i)
                 (\<lambda>w. put res (i * LENGTH('a) + j)
                        (if w AND push_bit j 1 \<noteq> 0 then set_chr else rst_chr)))
              res)
           result)
        (\<lambda>res.
           if m_storage_size b \<noteq> 0
           then for_loop 0 (m_partial_size b)
                  (\<lambda>i res. andThen (at (m_data b) i)
                     (\<lambda>w. put res ((m_storage_size b - 1) * LENGTH('a) + i)
                            (if w AND push_bit i 1 \<noteq> 0 then set_chr else rst_chr)))
                  res
           else Inr res))"

subsection \<open>Conversion between block types\<close>

text \<open>
  \<open>_from_other<OtherBlockType, OtherSize>(other)\<close>, with \<open>'a\<close> the other block type
  and \<open>'b\<close> the block type of \<open>*this\<close>. The first branch packs \<open>diff\<close> source blocks
  into a destination block, the second splits a source block into \<open>diff\<close>
  destination blocks.
\<close>

definition bitset_from_other :: "'a::len bitset \<Rightarrow> 'b::len bitset \<Rightarrow> ub + 'b bitset" where
  "bitset_from_other other b =
     (if LENGTH('a) div 8 < LENGTH('b) div 8
      then
        let diff = (LENGTH('b) div 8) div (LENGTH('a) div 8) in
        set_data b
          (andThen
             (for_loop_ret 0 (m_storage_size b)
                (\<lambda>i a. for_loop_ret 0 diff
                   (\<lambda>j a.
                      if m_storage_size other \<le> i * diff + j then Inr (Return a)
                      else andThen (at (m_data other) (i * diff + j))
                             (\<lambda>w. andThen
                                (modify a i (\<lambda>v. v OR push_bit (j * LENGTH('a)) (ucast w)))
                                (\<lambda>a1. Inr (Next a1))))
                   a)
                (m_data b))
             (\<lambda>x. Inr (case x of Return a \<Rightarrow> a | Next a \<Rightarrow> a)))
      else
        let diff = (LENGTH('a) div 8) div (LENGTH('b) div 8) in
        set_data b
          (andThen
             (for_loop_ret 0 (m_storage_size other)
                (\<lambda>i a. for_loop_ret 0 diff
                   (\<lambda>j a.
                      if m_storage_size b \<le> i * diff + j then Inr (Return a)
                      else andThen (at (m_data other) i)
                             (\<lambda>w. andThen
                                (put a (i * diff + j)
                                   (ucast (drop_bit (j mod diff * LENGTH('b)) w)))
                                (\<lambda>a1. Inr (Next a1))))
                   a)
                (m_data b))
             (\<lambda>x. Inr (case x of Return a \<Rightarrow> a | Next a \<Rightarrow> a))))"

text \<open>The conversion constructor: \<open>m_data{ 0 }\<close>, then \<open>_from_other\<close>.\<close>

definition bitset_of_other :: "nat \<Rightarrow> 'a::len bitset \<Rightarrow> ub + 'b::len bitset" where
  "bitset_of_other n other = bitset_from_other other (bitset_empty n)"

section \<open>The dynamic bitset\<close>

text \<open>
  \<open>template <unsigned_integer BlockType> class dynamic_bitset\<close>. The data members
  \<open>m_partial_size\<close> (\<open>uint8_t\<close>), \<open>m_storage_size\<close>, \<open>m_size\<close> (\<open>std::size_t\<close>) and
  \<open>m_data\<close> (\<open>BlockType*\<close>) are the fields \<open>dyn_partial_size\<close>, \<open>dyn_storage_size\<close>,
  \<open>dyn_size\<close> and \<open>dyn_data\<close>; the pointer is \<open>None\<close> when null and otherwise holds
  the heap array it points to, with the length the array was allocated with.
  \<open>m_partial_size\<close> is initialised with \<open>size % m_block_size\<close>, which is below the
  block width (at most 128) and so fits \<open>uint8_t\<close>; \<open>++\<close> and \<open>--\<close> on it wrap at
  \<open>2 ^ 8\<close>.
\<close>

record (overloaded) 'a dynamic_bitset =
  dyn_partial_size :: nat
  dyn_storage_size :: nat
  dyn_size :: nat
  dyn_data :: "'a word list option"

definition deref :: "'a option \<Rightarrow> ub + 'a" where
  "deref p = (case p of None \<Rightarrow> Inl NullPointer | Some a \<Rightarrow> Inr a)"

definition set_dyn_data ::
  "'a dynamic_bitset \<Rightarrow> ub + 'a word list \<Rightarrow> ub + 'a dynamic_bitset" where
  "set_dyn_data s r = andThen r (\<lambda>a. Inr (s\<lparr>dyn_data := Some a\<rparr>))"

text \<open>\<open>clear()\<close> and \<open>set()\<close>: \<open>memset\<close> over \<open>m_storage_size\<close> blocks.\<close>

definition dynamic_bitset_clear_all :: "'a::len dynamic_bitset \<Rightarrow> ub + 'a dynamic_bitset" where
  "dynamic_bitset_clear_all s =
     andThen (deref (dyn_data s))
       (\<lambda>a. set_dyn_data s (memset a 0 0 (dyn_storage_size s * (LENGTH('a) div 8))))"

definition dynamic_bitset_set_all :: "'a::len dynamic_bitset \<Rightarrow> ub + 'a dynamic_bitset" where
  "dynamic_bitset_set_all s =
     andThen (deref (dyn_data s))
       (\<lambda>a. set_dyn_data s (memset a 0 255 (dyn_storage_size s * (LENGTH('a) div 8))))"

text \<open>The empty constructor \<open>dynamic_bitset()\<close>.\<close>

definition dynamic_bitset_default :: "'a dynamic_bitset" where
  "dynamic_bitset_default =
     \<lparr>dyn_partial_size = 0, dyn_storage_size = 0, dyn_size = 0, dyn_data = None\<rparr>"

text \<open>
  The size constructor \<open>dynamic_bitset(size)\<close>: the members are initialised in the
  order of their declaration, \<open>m_data\<close> with a fresh array of \<open>m_storage_size\<close>
  blocks, and the body calls \<open>clear()\<close>. (\<open>new BlockType[0]\<close> is not a null pointer.)
\<close>

definition dynamic_bitset :: "(nat \<Rightarrow> 'a word) \<Rightarrow> nat \<Rightarrow> ub + 'a::len dynamic_bitset" where
  "dynamic_bitset junk sz =
     (let partial_size = sz mod LENGTH('a);
          storage_size = sz div LENGTH('a) + (if partial_size \<noteq> 0 then 1 else 0)
      in dynamic_bitset_clear_all
           \<lparr>dyn_partial_size = partial_size, dyn_storage_size = storage_size,
            dyn_size = sz, dyn_data = Some (new_array junk storage_size)\<rparr>)"

text \<open>\<open>test(index)\<close> and \<open>set(index, value)\<close>.\<close>

definition dynamic_bitset_test :: "nat \<Rightarrow> 'a::len dynamic_bitset \<Rightarrow> ub + bool" where
  "dynamic_bitset_test index s =
     andThen (deref (dyn_data s))
       (\<lambda>a. andThen (at a (index div LENGTH('a)))
          (\<lambda>w. Inr (w AND push_bit (index mod LENGTH('a)) 1 \<noteq> 0)))"

definition dynamic_bitset_set_value ::
  "nat \<Rightarrow> bool \<Rightarrow> 'a::len dynamic_bitset \<Rightarrow> ub + 'a dynamic_bitset" where
  "dynamic_bitset_set_value index v s =
     andThen (deref (dyn_data s))
       (\<lambda>a. if v
            then set_dyn_data s (modify a (index div LENGTH('a))
                   (\<lambda>w. w OR push_bit (index mod LENGTH('a)) 1))
            else set_dyn_data s (modify a (index div LENGTH('a))
                   (\<lambda>w. w AND NOT (push_bit (index mod LENGTH('a)) 1))))"

text \<open>\<open>none()\<close>: the full blocks, then the \<open>m_partial_size\<close> low bits of block
  \<open>m_size / m_block_size\<close>.\<close>

definition dynamic_bitset_none :: "'a::len dynamic_bitset \<Rightarrow> ub + bool" where
  "dynamic_bitset_none s =
     andThen
       (for_loop_ret 0
          (size_sub (dyn_storage_size s) (if dyn_partial_size s \<noteq> 0 then 1 else 0))
          (\<lambda>i u. andThen (deref (dyn_data s)) (\<lambda>a. andThen (at a i)
             (\<lambda>w. Inr (if w \<noteq> 0 then Return False else Next u)))) ())
       (\<lambda>x. case x of
          Return r \<Rightarrow> Inr r
        | Next u \<Rightarrow>
            if dyn_partial_size s \<noteq> 0
            then andThen
                   (for_loop_ret 0 (dyn_partial_size s)
                      (\<lambda>i u. andThen (deref (dyn_data s))
                         (\<lambda>a. andThen (at a (dyn_size s div LENGTH('a)))
                            (\<lambda>w. Inr (if w AND push_bit i 1 \<noteq> 0 then Return False
                                       else Next u)))) ())
                   (\<lambda>x. Inr (case x of Return r \<Rightarrow> r | Next u \<Rightarrow> True))
            else Inr True)"

text \<open>\<open>count()\<close>.\<close>

definition dynamic_bitset_count :: "'a::len dynamic_bitset \<Rightarrow> ub + nat" where
  "dynamic_bitset_count s =
     for_loop 0 (dyn_storage_size s)
       (\<lambda>i count. andThen (deref (dyn_data s))
          (\<lambda>a. andThen (at a i) (\<lambda>j. Inr (count_while j count)))) 0"

text \<open>\<open>set_range(begin, end)\<close>: the code of the fixed-size bitset, always on its
  \<open>memset\<close> branch.\<close>

definition dynamic_bitset_set_range ::
  "nat \<Rightarrow> nat \<Rightarrow> 'a::len dynamic_bitset \<Rightarrow> ub + 'a dynamic_bitset" where
  "dynamic_bitset_set_range begin_idx end_idx s =
     andThen (deref (dyn_data s))
       (\<lambda>a. set_dyn_data s (set_range_blocks False begin_idx end_idx a))"

text \<open>
  \<open>operator==\<close> and \<open>operator!=\<close>. In \<open>operator!=\<close> the \<open>for\<close> statement is the body
  of \<open>if (m_size != other.m_size)\<close>.
\<close>

definition dynamic_bitset_eq :: "'a::len dynamic_bitset \<Rightarrow> 'a dynamic_bitset \<Rightarrow> ub + bool" where
  "dynamic_bitset_eq s other =
     (if dyn_size s \<noteq> dyn_size other then Inr False
      else
        andThen
          (for_loop_ret 0
             (size_sub (dyn_storage_size s) (if dyn_partial_size s \<noteq> 0 then 1 else 0))
             (\<lambda>i u. andThen (deref (dyn_data s)) (\<lambda>a. andThen (at a i) (\<lambda>x.
                     andThen (deref (dyn_data other)) (\<lambda>c. andThen (at c i) (\<lambda>y.
                       Inr (if x \<noteq> y then Return False else Next u)))))) ())
          (\<lambda>x. case x of
             Return r \<Rightarrow> Inr r
           | Next u \<Rightarrow>
               if dyn_partial_size s \<noteq> 0
               then andThen (low_mask (dyn_partial_size s)) (\<lambda>mask.
                    andThen (deref (dyn_data s)) (\<lambda>a.
                    andThen (at a (size_dec (dyn_storage_size s))) (\<lambda>x.
                    andThen (deref (dyn_data other)) (\<lambda>c.
                    andThen (at c (size_dec (dyn_storage_size s))) (\<lambda>y.
                      Inr (\<not> ((x AND mask) \<noteq> (y AND mask))))))))
               else Inr True))"

definition dynamic_bitset_ne :: "'a::len dynamic_bitset \<Rightarrow> 'a dynamic_bitset \<Rightarrow> ub + bool" where
  "dynamic_bitset_ne s other =
     andThen
       (if dyn_size s \<noteq> dyn_size other
        then for_loop_ret 0
               (size_sub (dyn_storage_size s) (if dyn_partial_size s \<noteq> 0 then 1 else 0))
               (\<lambda>i u. andThen (deref (dyn_data s)) (\<lambda>a. andThen (at a i) (\<lambda>x.
                       andThen (deref (dyn_data other)) (\<lambda>c. andThen (at c i) (\<lambda>y.
                         Inr (if x = y then Return False else Next u)))))) ()
        else Inr (Next ()))
       (\<lambda>x. case x of
          Return r \<Rightarrow> Inr r
        | Next u \<Rightarrow>
            if dyn_partial_size s \<noteq> 0
            then andThen (low_mask (dyn_partial_size s)) (\<lambda>mask.
                 andThen (deref (dyn_data s)) (\<lambda>a.
                 andThen (at a (size_dec (dyn_storage_size s))) (\<lambda>x.
                 andThen (deref (dyn_data other)) (\<lambda>c.
                 andThen (at c (size_dec (dyn_storage_size s))) (\<lambda>y.
                   Inr (\<not> ((x AND mask) = (y AND mask))))))))
            else Inr True)"

subsection \<open>Growing and shrinking by one bit or one block\<close>

text \<open>
  \<open>push_back(value)\<close>. \<open>m_size++\<close> yields the old size; \<open>++m_storage_size\<close> is the
  length of the new array; \<open>std::copy\<close> reads that many blocks of the old array. The
  shift count \<open>m_partial_size - 1\<close> is computed in \<open>int\<close>.
\<close>

definition dynamic_bitset_push_back ::
  "(nat \<Rightarrow> 'a word) \<Rightarrow> bool \<Rightarrow> 'a::len dynamic_bitset \<Rightarrow> ub + 'a dynamic_bitset" where
  "dynamic_bitset_push_back junk v s =
     andThen
       (if dyn_size s mod LENGTH('a) = 0
        then
          let storage_size = size_inc (dyn_storage_size s);
              new_data = new_array junk storage_size
          in andThen
               (case dyn_data s of
                  None \<Rightarrow> Inr new_data
                | Some a \<Rightarrow> copy_blocks a storage_size new_data)
               (\<lambda>new_data. andThen (put new_data (size_dec storage_size) 0)
                  (\<lambda>new_data.
                     Inr (s\<lparr>dyn_partial_size := 0, dyn_storage_size := storage_size,
                            dyn_size := size_inc (dyn_size s), dyn_data := Some new_data\<rparr>)))
        else Inr (s\<lparr>dyn_partial_size := uint8_inc (dyn_partial_size s),
                     dyn_size := size_inc (dyn_size s)\<rparr>))
       (\<lambda>s1. andThen (shl_one (int (dyn_partial_size s1) - 1)) (\<lambda>bit1.
             andThen (deref (dyn_data s1)) (\<lambda>a.
               set_dyn_data s1
                 (modify a (size_dec (dyn_storage_size s1))
                    (\<lambda>w. if v then w OR bit1 else w AND NOT bit1)))))"

text \<open>
  \<open>pop_back()\<close>. \<open>--m_size\<close> comes first; in the branch taken when the new size is
  a multiple of the block width, \<open>m_size\<close> is decremented once more at its end.
\<close>

definition dynamic_bitset_pop_back ::
  "(nat \<Rightarrow> 'a word) \<Rightarrow> 'a::len dynamic_bitset \<Rightarrow> ub + 'a dynamic_bitset" where
  "dynamic_bitset_pop_back junk s =
     (let size1 = size_dec (dyn_size s) in
      if size1 mod LENGTH('a) = 0
      then
        let storage_size = size_dec (dyn_storage_size s) in
        andThen
          (if size1 \<noteq> 0
           then andThen
                  (case dyn_data s of
                     None \<Rightarrow> if storage_size = 0 then Inr [] else Inl NullPointer
                   | Some a \<Rightarrow> copy_blocks a storage_size (new_array junk storage_size))
                  (\<lambda>new_data. Inr (Some new_data))
           else Inr None)
          (\<lambda>d. Inr (s\<lparr>dyn_partial_size := 0, dyn_storage_size := storage_size,
                       dyn_size := size_dec size1, dyn_data := d\<rparr>))
      else Inr (s\<lparr>dyn_partial_size := uint8_dec (dyn_partial_size s), dyn_size := size1\<rparr>))"

text \<open>\<open>pop_back_block()\<close>: always a fresh array of \<open>--m_storage_size\<close> blocks.\<close>

definition dynamic_bitset_pop_back_block ::
  "(nat \<Rightarrow> 'a word) \<Rightarrow> 'a::len dynamic_bitset \<Rightarrow> ub + 'a dynamic_bitset" where
  "dynamic_bitset_pop_back_block junk s =
     (let storage_size = size_dec (dyn_storage_size s);
          new_data = new_array junk storage_size
      in andThen
           (case dyn_data s of
              None \<Rightarrow> Inr new_data
            | Some a \<Rightarrow> copy_blocks a storage_size new_data)
           (\<lambda>new_data.
              Inr (s\<lparr>dyn_partial_size := 0, dyn_storage_size := storage_size,
                     dyn_size := storage_size * LENGTH('a) mod 2 ^ 64,
                     dyn_data := Some new_data\<rparr>)))"

text \<open>
  The invariant that the specification states for the dynamic bitset:
  \<open>m_storage_size\<close> is \<open>m_size\<close> divided by the block width, rounded up, and
  \<open>m_data\<close> is null exactly when \<open>m_size\<close> is 0.
\<close>

definition dynamic_bitset_invariant :: "'a::len dynamic_bitset \<Rightarrow> bool" where
  "dynamic_bitset_invariant s \<longleftrightarrow>
     dyn_storage_size s = (dyn_size s + LENGTH('a) - 1) div LENGTH('a) \<and>
     (dyn_data s = None \<longleftrightarrow> dyn_size s = 0)"

subsection \<open>Conversion between block types\<close>

text \<open>
  \<open>_from_other<OtherBlockType>(other)\<close> of the dynamic bitset, with \<open>'a\<close> the other
  block type and \<open>'b\<close> the block type of \<open>*this\<close>: \<open>clear()\<close>, then the two branches of
  the fixed-size bitset on the heap array.
\<close>

definition dynamic_bitset_from_other ::
  "'a::len dynamic_bitset \<Rightarrow> 'b::len dynamic_bitset \<Rightarrow> ub + 'b dynamic_bitset" where
  "dynamic_bitset_from_other other s =
     andThen (dynamic_bitset_clear_all s) (\<lambda>s1.
     andThen (deref (dyn_data s1)) (\<lambda>a0.
       if LENGTH('a) div 8 < LENGTH('b) div 8
       then
         let diff = (LENGTH('b) div 8) div (LENGTH('a) div 8) in
         set_dyn_data s1
           (andThen
              (for_loop_ret 0 (dyn_storage_size s1)
                 (\<lambda>i a. for_loop_ret 0 diff
                    (\<lambda>j a.
                       if dyn_storage_size other \<le> i * diff + j then Inr (Return a)
                       else andThen (deref (dyn_data other))
                              (\<lambda>c. andThen (at c (i * diff + j))
                                 (\<lambda>w. andThen
                                    (modify a i (\<lambda>v. v OR push_bit (j * LENGTH('a)) (ucast w)))
                                    (\<lambda>a1. Inr (Next a1)))))
                    a)
                 a0)
              (\<lambda>x. Inr (case x of Return a \<Rightarrow> a | Next a \<Rightarrow> a)))
       else
         let diff = (LENGTH('a) div 8) div (LENGTH('b) div 8) in
         set_dyn_data s1
           (andThen
              (for_loop_ret 0 (dyn_storage_size other)
                 (\<lambda>i a. for_loop_ret 0 diff
                    (\<lambda>j a.
                       if dyn_storage_size s1 \<le> i * diff + j then Inr (Return a)
                       else andThen (deref (dyn_data other))
                              (\<lambda>c. andThen (at c i)
                                 (\<lambda>w. andThen
                                    (put a (i * diff + j)
                                       (ucast (drop_bit (j mod diff * LENGTH('b)) w)))
                                    (\<lambda>a1. Inr (Next a1)))))
                    a)
                 a0)
              (\<lambda>x. Inr (case x of Return a \<Rightarrow> a | Next a \<Rightarrow> a)))))"

text \<open>
  The conversion constructor \<open>dynamic_bitset(const dynamic_bitset<OtherBlockType>&)\<close>.
  \<open>m_partial_size\<close> is \<open>other.m_size % m_block_size\<close>. \<open>m_storage_size\<close> is
  \<open>static_cast<double>(sizeof(OtherBlockType) / sizeof(BlockType)) * other.m_storage_size
  + !!m_partial_size\<close>, converted back to \<open>std::size_t\<close>: the quotient \<open>ratio\<close> is taken
  between integers before the conversion to \<open>double\<close>. The arithmetic in \<open>double\<close> is
  exact for results below \<open>2 ^ 53\<close>; beyond that the result is whatever rounding
  gives, the parameter \<open>inexact\<close>. The body calls \<open>clear()\<close> and \<open>_from_other\<close>.
\<close>

definition dynamic_bitset_of_other ::
  "(nat \<Rightarrow> 'b word) \<Rightarrow> (nat \<Rightarrow> nat \<Rightarrow> nat \<Rightarrow> nat) \<Rightarrow> 'a::len dynamic_bitset \<Rightarrow>
     ub + 'b::len dynamic_bitset" where
  "dynamic_bitset_of_other junk inexact other =
     (let partial_size = dyn_size other mod LENGTH('b);
          ratio = (LENGTH('a) div 8) div (LENGTH('b) div 8);
          p = (if partial_size \<noteq> 0 then 1 else 0);
          storage_size =
            (if ratio * dyn_storage_size other + p < 2 ^ 53
             then ratio * dyn_storage_size other + p
             else inexact ratio (dyn_storage_size other) p)
      in andThen
           (dynamic_bitset_clear_all
              \<lparr>dyn_partial_size = partial_size, dyn_storage_size = storage_size,
               dyn_size = dyn_size other, dyn_data = Some (new_array junk storage_size)\<rparr>)
           (dynamic_bitset_from_other other))"

section \<open>Basic facts\<close>

lemma andThen_simps [simp]:
  "andThen (Inl e) f = Inl e"
  "andThen (Inr x) f = f x"
  by (simp_all add: andThen_def)

text \<open>The definitions that \<open>simp\<close> unfolds to run the model on a concrete input.\<close>

lemmas run_defs =
  andThen_def at_def put_def modify_def for_loop.simps for_loop_ret.simps
  size_inc_def size_dec_def size_sub_def uint8_inc_def uint8_dec_def shl_one_def low_mask_def
  memset_def copy_blocks_def new_array_def Let_def
  m_full_storage_size_def m_partial_size_def m_storage_size_def bitset_empty_def set_data_def
  deref_def set_dyn_data_def count_while.simps

subsection \<open>Loops\<close>

lemma for_loop_unchanged:
  assumes "\<And>k. i \<le> k \<Longrightarrow> k < hi \<Longrightarrow> body k s = Inr s"
  shows "for_loop i hi body s = Inr s"
  using assms
proof (induction "hi - i" arbitrary: i)
  case 0
  then show ?case
    by (simp add: for_loop.simps)
next
  case (Suc d)
  then have "i < hi" and "d = hi - Suc i"
    by simp_all
  moreover have "body i s = Inr s"
    using Suc.prems \<open>i < hi\<close> by simp
  moreover have "for_loop (Suc i) hi body s = Inr s"
    using Suc.hyps(1) [OF \<open>d = hi - Suc i\<close>] Suc.prems by simp
  ultimately show ?case
    by (simp add: for_loop.simps [of i])
qed

lemma for_loop_ret_unchanged:
  assumes "\<And>k. i \<le> k \<Longrightarrow> k < hi \<Longrightarrow> body k s = Inr (Next s)"
  shows "for_loop_ret i hi body s = Inr (Next s)"
  using assms
proof (induction "hi - i" arbitrary: i)
  case 0
  then show ?case
    by (simp add: for_loop_ret.simps)
next
  case (Suc d)
  then have "i < hi" and "d = hi - Suc i"
    by simp_all
  moreover have "body i s = Inr (Next s)"
    using Suc.prems \<open>i < hi\<close> by simp
  moreover have "for_loop_ret (Suc i) hi body s = Inr (Next s)"
    using Suc.hyps(1) [OF \<open>d = hi - Suc i\<close>] Suc.prems by simp
  ultimately show ?case
    by (simp add: for_loop_ret.simps [of i])
qed

text \<open>Invariant rule for a loop whose body may return.\<close>

lemma for_loop_ret_rule:
  assumes "I i s" and "i \<le> hi"
    and step: "\<And>k s. k < hi \<Longrightarrow> I k s \<Longrightarrow>
           (\<exists>s'. body k s = Inr (Next s') \<and> I (Suc k) s') \<or>
           (\<exists>r. body k s = Inr (Return r) \<and> Q r)"
  shows "(\<exists>s'. for_loop_ret i hi body s = Inr (Next s') \<and> I hi s') \<or>
         (\<exists>r. for_loop_ret i hi body s = Inr (Return r) \<and> Q r)"
  using assms(1,2)
proof (induction "hi - i" arbitrary: i s)
  case 0
  then show ?case
    by (simp add: for_loop_ret.simps)
next
  case (Suc d)
  then have lt: "i < hi" and d: "d = hi - Suc i"
    by simp_all
  from step [OF lt \<open>I i s\<close>]
  consider s' where "body i s = Inr (Next s')" "I (Suc i) s'"
    | r where "body i s = Inr (Return r)" "Q r"
    by blast
  then show ?case
  proof cases
    case 1
    have "(\<exists>s''. for_loop_ret (Suc i) hi body s' = Inr (Next s'') \<and> I hi s'') \<or>
          (\<exists>r. for_loop_ret (Suc i) hi body s' = Inr (Return r) \<and> Q r)"
      using Suc.hyps(1) [OF d 1(2)] lt by simp
    with 1 lt show ?thesis
      by (simp add: for_loop_ret.simps [of i])
  next
    case 2
    with lt show ?thesis
      by (simp add: for_loop_ret.simps [of i])
  qed
qed

lemma for_loop_rule:
  assumes "I i s" and "i \<le> hi"
    and step: "\<And>k s. k < hi \<Longrightarrow> I k s \<Longrightarrow> \<exists>s'. body k s = Inr s' \<and> I (Suc k) s'"
  shows "\<exists>s'. for_loop i hi body s = Inr s' \<and> I hi s'"
  using assms(1,2)
proof (induction "hi - i" arbitrary: i s)
  case 0
  then show ?case
    by (simp add: for_loop.simps)
next
  case (Suc d)
  then have lt: "i < hi" and d: "d = hi - Suc i"
    by simp_all
  from step [OF lt \<open>I i s\<close>]
  obtain s' where s': "body i s = Inr s'" "I (Suc i) s'"
    by blast
  have "\<exists>s''. for_loop (Suc i) hi body s' = Inr s'' \<and> I hi s''"
    using Suc.hyps(1) [OF d s'(2)] lt by simp
  with s' lt show ?case
    by (simp add: for_loop.simps [of i])
qed

subsection \<open>Blocks and bits\<close>

lemma div_lt_blocks:
  fixes W :: nat
  assumes "i < n" and "0 < W"
  shows "i div W < n div W + (if n mod W \<noteq> 0 then 1 else 0)"
proof (cases "n mod W = 0")
  case True
  then have "n = n div W * W"
    by (simp add: mod_eq_0_iff_dvd)
  with assms(1) have "i < n div W * W"
    by simp
  then have "i div W < n div W"
    by (simp add: div_less_iff_less_mult assms(2))
  with True show ?thesis
    by simp
next
  case False
  have "i div W \<le> n div W"
    using assms(1) by (simp add: div_le_mono)
  with False show ?thesis
    by simp
qed

lemma block_index_in_range:
  fixes b :: "'a::len bitset"
  assumes "bitset_wf b" and "i < Size b"
  shows "i div LENGTH('a) < length (m_data b)"
proof (cases "Size b mod LENGTH('a) = 0")
  case True
  then have "Size b = Size b div LENGTH('a) * LENGTH('a)"
    by (simp add: mod_eq_0_iff_dvd)
  with assms(2) have "i < Size b div LENGTH('a) * LENGTH('a)"
    by simp
  then have "i div LENGTH('a) < Size b div LENGTH('a)"
    by (simp add: div_less_iff_less_mult)
  with True assms(1) show ?thesis
    by (simp add: bitset_wf_def m_storage_size_def m_partial_size_def)
next
  case False
  have "i div LENGTH('a) \<le> Size b div LENGTH('a)"
    using assms(2) by (simp add: div_le_mono)
  with False assms(1) show ?thesis
    by (simp add: bitset_wf_def m_storage_size_def m_partial_size_def)
qed

lemma bitset_test_bit:
  fixes b :: "'a::len bitset"
  shows "bitset_test j b =
     (if j div LENGTH('a) < length (m_data b)
      then Inr (bit (m_data b ! (j div LENGTH('a))) (j mod LENGTH('a)))
      else Inl OutOfBounds)"
  by (simp add: bitset_test_def at_def bit_iff_and_push_bit_not_eq_0)

lemma bit_set_one:
  fixes w :: "'a::len word"
  assumes "k < LENGTH('a)"
  shows "bit (w OR push_bit k 1) n \<longleftrightarrow> (if n = k then True else bit w n)"
  using assms by (auto simp add: bit_simps)

lemma bit_clear_one:
  fixes w :: "'a::len word"
  assumes "k < LENGTH('a)"
  shows "bit (w AND NOT (push_bit k 1)) n \<longleftrightarrow> (if n = k then False else bit w n)"
  using assms by (auto simp add: bit_simps dest: bit_imp_le_length)

lemma bit_flip_one:
  fixes w :: "'a::len word"
  assumes "k < LENGTH('a)"
  shows "bit (w XOR push_bit k 1) n \<longleftrightarrow> (if n = k then \<not> bit w n else bit w n)"
  using assms by (auto simp add: bit_simps)

lemma div_mod_neq:
  fixes i j W :: nat
  assumes "j \<noteq> i" and "j div W = i div W"
  shows "j mod W \<noteq> i mod W"
  using assms by (metis div_mult_mod_eq)

lemma modify_block_test:
  fixes b :: "'a::len bitset"
  assumes "i div LENGTH('a) < length (m_data b)"
    and "\<And>w n. bit (f w) n \<longleftrightarrow> (if n = i mod LENGTH('a) then g (bit w n) else bit w n)"
  shows "\<exists>b'. set_data b (modify (m_data b) (i div LENGTH('a)) f) = Inr b' \<and>
           Size b' = Size b \<and> length (m_data b') = length (m_data b) \<and>
           bitset_test i b' = map_sum id g (bitset_test i b) \<and>
           (\<forall>j. j \<noteq> i \<longrightarrow> bitset_test j b' = bitset_test j b)"
proof -
  let ?W = "LENGTH('a)"
  let ?b' = "b\<lparr>m_data := (m_data b)[i div ?W := f (m_data b ! (i div ?W))]\<rparr>"
  have 1: "set_data b (modify (m_data b) (i div ?W) f) = Inr ?b'"
    using assms(1) by (simp add: set_data_def modify_def)
  have 2: "bitset_test i ?b' = map_sum id g (bitset_test i b)"
    using assms by (simp add: bitset_test_bit)
  have 3: "bitset_test j ?b' = bitset_test j b" if "j \<noteq> i" for j
  proof (cases "j div ?W = i div ?W")
    case True
    with that have "j mod ?W \<noteq> i mod ?W"
      by (rule div_mod_neq)
    with True assms show ?thesis
      by (simp add: bitset_test_bit)
  next
    case False
    then show ?thesis
      by (simp add: bitset_test_bit)
  qed
  from 1 2 3 show ?thesis
    by simp
qed

lemma rep_byte_zero: "rep_byte k 0 = 0"
  by (induction k) simp_all

lemma memset_whole:
  fixes a :: "'a::len word list"
  assumes "8 \<le> LENGTH('a)"
  shows "memset a 0 c (length a * (LENGTH('a) div 8)) =
         Inr (replicate (length a) (rep_byte (LENGTH('a) div 8) c))"
proof -
  have "0 < LENGTH('a) div 8"
    using assms by (simp add: div_greater_zero_iff)
  then show ?thesis
    by (simp add: memset_def Let_def)
qed

lemma count_while_zero: "count_while 0 count = count"
  by (simp add: count_while.simps)

lemma size_sub_le:
  assumes "b \<le> a"
  shows "size_sub a b \<le> a - b"
proof -
  have eq: "a + 2 ^ 64 - b = (a - b) + 2 ^ 64"
    using assms by arith
  show ?thesis
    unfolding size_sub_def eq by simp
qed

lemma at_replicate: "at (replicate m x) k = (if k < m then Inr x else Inl OutOfBounds)"
  by (simp add: at_def)

lemma dynamic_bitset_result:
  assumes "8 \<le> LENGTH('a::len)"
  shows "(dynamic_bitset junk n :: ub + 'a dynamic_bitset) =
     Inr \<lparr>dyn_partial_size = n mod LENGTH('a),
          dyn_storage_size = n div LENGTH('a) + (if n mod LENGTH('a) \<noteq> 0 then 1 else 0),
          dyn_size = n,
          dyn_data = Some (replicate (n div LENGTH('a) + (if n mod LENGTH('a) \<noteq> 0 then 1 else 0)) 0)\<rparr>"
proof -
  let ?st = "n div LENGTH('a) + (if n mod LENGTH('a) \<noteq> 0 then 1 else 0)"
  have "memset (new_array junk ?st :: 'a word list) 0 0 (?st * (LENGTH('a) div 8)) =
        Inr (replicate ?st 0)"
    using memset_whole [OF assms, of "new_array junk ?st" 0]
    by (simp add: new_array_def rep_byte_zero)
  then show ?thesis
    by (simp add: dynamic_bitset_def dynamic_bitset_clear_all_def Let_def deref_def
        set_dyn_data_def)
qed

lemma length_bitset_empty:
  "length (m_data (bitset_empty n :: 'a::len bitset)) = m_storage_size (bitset_empty n :: 'a bitset)"
  by (simp add: bitset_empty_def m_storage_size_def m_partial_size_def)

lemma widen_loops:
  fixes src :: "'a::len word list" and a0 :: "'b::len word list"
  assumes nd: "nd \<le> length a0" and ns: "ns \<le> length src"
  shows "\<exists>x a'.
     for_loop_ret 0 nd
       (\<lambda>i a. for_loop_ret 0 diff
          (\<lambda>j a.
             if ns \<le> i * diff + j then Inr (Return a)
             else andThen (at src (i * diff + j))
                    (\<lambda>w. andThen
                       (modify a i (\<lambda>v. v OR push_bit (j * LENGTH('a)) (ucast w)))
                       (\<lambda>a1. Inr (Next a1))))
          a)
       a0 = Inr x \<and> (x = Return a' \<or> x = Next a') \<and>
     length a' = length a0 \<and>
     (\<forall>i<length a0. \<forall>k. bit (a' ! i) k \<longleftrightarrow>
        bit (a0 ! i) k \<or>
        (i < nd \<and> (\<exists>j<diff. i * diff + j < ns \<and>
           bit (push_bit (j * LENGTH('a)) (ucast (src ! (i * diff + j))) :: 'b word) k)))"
proof -
  define c :: "nat \<Rightarrow> nat \<Rightarrow> 'b word"
    where "c i j = push_bit (j * LENGTH('a)) (ucast (src ! (i * diff + j)))" for i j
  define J :: "nat \<Rightarrow> nat \<Rightarrow> 'b word list \<Rightarrow> bool"
    where "J i j a \<longleftrightarrow> i \<le> nd \<and> length a = length a0 \<and>
      (\<forall>i'<length a0. \<forall>k. bit (a ! i') k \<longleftrightarrow> bit (a0 ! i') k \<or>
         (i' < i \<and> (\<exists>j'<diff. i' * diff + j' < ns \<and> bit (c i' j') k)) \<or>
         (i' = i \<and> (\<exists>j'<j. i' * diff + j' < ns \<and> bit (c i' j') k)))" for i j a
  define P :: "'b word list \<Rightarrow> bool"
    where "P a \<longleftrightarrow> length a = length a0 \<and>
      (\<forall>i<length a0. \<forall>k. bit (a ! i) k \<longleftrightarrow> bit (a0 ! i) k \<or>
         (i < nd \<and> (\<exists>j<diff. i * diff + j < ns \<and> bit (c i j) k)))" for a
  let ?inner = "\<lambda>i j a.
     if ns \<le> i * diff + j then Inr (Return a)
     else andThen (at src (i * diff + j))
            (\<lambda>w. andThen (modify a i (\<lambda>v. v OR push_bit (j * LENGTH('a)) (ucast w)))
               (\<lambda>a1. Inr (Next a1)))"
  have inner_step: "(\<exists>a'. ?inner i j a = Inr (Next a') \<and> J i (Suc j) a') \<or>
      (\<exists>r. ?inner i j a = Inr (Return r) \<and> P r)"
    if "i < nd" and "j < diff" and "J i j a" for i j a
  proof (cases "ns \<le> i * diff + j")
    case True
    have "P a"
      unfolding P_def
    proof (intro conjI allI impI)
      show "length a = length a0"
        using that(3) by (simp add: J_def)
    next
      fix i' k
      assume i': "i' < length a0"
      have none: "\<not> i' * diff + j' < ns" if "i < i'" for j'
      proof -
        have "Suc i * diff \<le> i' * diff"
          using that by (intro mult_le_mono1) simp
        with True \<open>j < diff\<close> show ?thesis
          by simp
      qed
      have below: "j' < j" if "i * diff + j' < ns" for j'
        using that True by simp
      have inv: "bit (a ! i') k \<longleftrightarrow> bit (a0 ! i') k \<or>
         (i' < i \<and> (\<exists>j'<diff. i' * diff + j' < ns \<and> bit (c i' j') k)) \<or>
         (i' = i \<and> (\<exists>j'<j. i' * diff + j' < ns \<and> bit (c i' j') k))"
        using \<open>J i j a\<close> i' by (simp add: J_def)
      consider "i' < i" | "i' = i" | "i < i'"
        by (rule linorder_cases)
      then show "bit (a ! i') k \<longleftrightarrow> bit (a0 ! i') k \<or>
         (i' < nd \<and> (\<exists>j<diff. i' * diff + j < ns \<and> bit (c i' j) k))"
      proof cases
        case 1
        with inv \<open>i < nd\<close> show ?thesis
          by auto
      next
        case 2
        with inv \<open>i < nd\<close> \<open>j < diff\<close> below show ?thesis
          by (auto intro: less_trans)
      next
        case 3
        with inv none [OF 3] show ?thesis
          by auto
      qed
    qed
    with True show ?thesis
      by simp
  next
    case False
    then have src: "i * diff + j < length src"
      using ns by simp
    have len: "i < length a"
      using that nd by (simp add: J_def)
    let ?a' = "a[i := a ! i OR c i j]"
    have "?inner i j a = Inr (Next ?a')"
      using False src len by (simp add: at_def modify_def c_def)
    moreover have "J i (Suc j) ?a'"
      using \<open>J i j a\<close> False len
      unfolding J_def
      by (auto simp add: nth_list_update bit_or_iff less_Suc_eq)
    ultimately show ?thesis
      by blast
  qed
  have outer_step: "(\<exists>a'. for_loop_ret 0 diff (?inner i) a = Inr (Next a') \<and> J (Suc i) 0 a') \<or>
      (\<exists>r. for_loop_ret 0 diff (?inner i) a = Inr (Return r) \<and> P r)"
    if "i < nd" and "J i 0 a" for i a
  proof -
    have "(\<exists>a'. for_loop_ret 0 diff (?inner i) a = Inr (Next a') \<and> J i diff a') \<or>
      (\<exists>r. for_loop_ret 0 diff (?inner i) a = Inr (Return r) \<and> P r)"
      using that(2) inner_step [OF that(1)]
      by (intro for_loop_ret_rule [where I = "J i" and Q = P]) simp_all
    moreover have "J (Suc i) 0 a'" if "J i diff a'" for a'
      using that \<open>i < nd\<close> unfolding J_def
      by (auto simp add: less_Suc_eq)
    ultimately show ?thesis
      by blast
  qed
  have "J 0 0 a0"
    by (simp add: J_def)
  then have "(\<exists>a'. for_loop_ret 0 nd (\<lambda>i. for_loop_ret 0 diff (?inner i)) a0 = Inr (Next a') \<and> J nd 0 a') \<or>
      (\<exists>r. for_loop_ret 0 nd (\<lambda>i. for_loop_ret 0 diff (?inner i)) a0 = Inr (Return r) \<and> P r)"
    using outer_step
    by (intro for_loop_ret_rule [where I = "\<lambda>i. J i 0" and Q = P]) simp_all
  moreover have "P a'" if "J nd 0 a'" for a'
    using that unfolding J_def P_def by auto
  ultimately obtain x a' where
    "for_loop_ret 0 nd (\<lambda>i. for_loop_ret 0 diff (?inner i)) a0 = Inr x"
    "x = Return a' \<or> x = Next a'" "P a'"
    by blast
  then show ?thesis
    unfolding P_def c_def by blast
qed

section \<open>What the operations do in general\<close>

subsection \<open>Arithmetic of sizes\<close>

lemma size_sub_le_eq:
  assumes "b \<le> a" and "a < 2 ^ 64"
  shows "size_sub a b = a - b"
proof -
  have eq: "a + 2 ^ 64 - b = (a - b) + 2 ^ 64"
    using assms(1) by arith
  have "a - b < 2 ^ 64"
    using assms(2) by (rule le_less_trans [OF diff_le_self])
  then show ?thesis
    unfolding size_sub_def eq by simp
qed

lemma size_inc_small: "n < 2 ^ 64 - 1 \<Longrightarrow> size_inc n = n + 1"
  by (simp add: size_inc_def)

lemma size_dec_pos: "0 < n \<Longrightarrow> n < 2 ^ 64 \<Longrightarrow> size_dec n = n - 1"
proof -
  assume "0 < n" and "n < 2 ^ 64"
  have eq: "n + 2 ^ 64 - 1 = (n - 1) + 2 ^ 64"
    using \<open>0 < n\<close> by arith
  show ?thesis
    unfolding size_dec_def eq using \<open>n < 2 ^ 64\<close> by simp
qed

subsection \<open>Range fill\<close>

text \<open>
  When \<open>begin\<close> is a multiple of the block width and \<open>end\<close> lies in the same block,
  \<open>set_range\<close> writes nothing, whatever the block width and on both branches.
\<close>

lemma set_range_blocks_aligned_same_block:
  fixes a :: "'a::len word list"
  assumes aligned: "begin_idx mod LENGTH('a) = 0"
    and same: "begin_idx div LENGTH('a) = end_idx div LENGTH('a)"
    and order: "begin_idx \<le> end_idx" "end_idx < 2 ^ 64"
    and range: "begin_idx div LENGTH('a) \<le> length a"
    and bytes: "8 \<le> LENGTH('a)"
  shows "set_range_blocks is_constant_evaluated begin_idx end_idx a = Inr a"
proof -
  let ?W = "LENGTH('a)"
  have sub: "size_sub end_idx begin_idx = end_idx - begin_idx"
    using order by (rule size_sub_le_eq)
  have "begin_idx = end_idx div ?W * ?W"
    using aligned same by (metis add.right_neutral div_mult_mod_eq)
  then have "end_idx - begin_idx = end_idx mod ?W"
    by (metis add_diff_cancel_left' div_mult_mod_eq)
  then have "end_idx - begin_idx < ?W"
    by simp
  then have blocks: "(end_idx - begin_idx) div ?W = 0"
    by simp
  have zero: "size_sub 0 0 = 0"
    by (simp add: size_sub_def)
  have s: "0 < ?W div 8"
    using bytes by (simp add: div_greater_zero_iff)
  have fill: "memset a (end_idx div ?W) 255 0 = Inr a"
    using range same s by (simp add: memset_def Let_def)
  have loop: "for_loop (end_idx div ?W) (end_idx div ?W) (\<lambda>i a. put a i (- 1)) a = Inr a"
    by (simp add: for_loop.simps)
  show ?thesis
    using aligned same sub blocks zero fill loop
    by (simp add: set_range_blocks_def Let_def)
qed

text \<open>
  The run-time branch subtracts \<open>to_sub\<close> from a count of bytes: with 8-bit blocks,
  \<open>set_range(7, 17)\<close> leaves block 1 untouched, and \<open>set_range(4, 10)\<close> calls
  \<open>memset\<close> with a count of \<open>2 ^ 64 - 1\<close> bytes.
\<close>

lemma set_range_memset_count:
  "bitset_set_range True 7 17 \<lparr>Size = 24, m_data = [0, 0, 0 :: 8 word]\<rparr>
     = Inr \<lparr>Size = 24, m_data = [0x80, 0xFF, 0x01]\<rparr> \<and>
   bitset_set_range False 7 17 \<lparr>Size = 24, m_data = [0, 0, 0 :: 8 word]\<rparr>
     = Inr \<lparr>Size = 24, m_data = [0x80, 0x00, 0x01]\<rparr> \<and>
   bitset_set_range False 4 10 \<lparr>Size = 16, m_data = [0, 0 :: 8 word]\<rparr> = Inl OutOfBounds"
  by (simp add: run_defs bitset_set_range_def set_range_blocks_def set_bits_def)

subsection \<open>Counting\<close>

text \<open>
  \<open>count()\<close> on a block of all-ones runs through the values \<open>NOT (mask m)\<close>; it
  counts all \<open>LENGTH('a)\<close> bits. After \<open>set()\<close> every block is all-ones, so \<open>count()\<close>
  is \<open>m_storage_size * LENGTH('a)\<close>: the number of bits when that is a multiple of the
  block width, and more otherwise. After \<open>clear()\<close> it is 0.
\<close>

lemma clear_lowest_of_high_bits:
  fixes m :: nat
  shows "(NOT (mask m) :: 'a::len word) AND (NOT (mask m) - 1) = NOT (mask (Suc m))"
proof -
  have "(NOT (mask m) :: 'a word) - 1 = NOT (2 ^ m)"
    by (simp add: not_eq_complement mask_eq_exp_minus_1)
  then have "(NOT (mask m) :: 'a word) AND (NOT (mask m) - 1) = NOT (mask m OR 2 ^ m)"
    by simp
  also have "(mask m OR 2 ^ m :: 'a word) = mask (Suc m)"
    by (simp add: mask_Suc_exp or.commute)
  finally show ?thesis .
qed

lemma not_mask_eq_0_iff:
  "(NOT (mask m) :: 'a::len word) = 0 \<longleftrightarrow> LENGTH('a) \<le> m"
proof
  assume "(NOT (mask m) :: 'a word) = 0"
  then have "\<not> bit (NOT (mask m) :: 'a word) m"
    by simp
  then show "LENGTH('a) \<le> m"
    by (simp add: bit_simps)
next
  assume "LENGTH('a) \<le> m"
  then show "(NOT (mask m) :: 'a word) = 0"
    by (intro bit_eqI) (auto simp add: bit_simps)
qed

lemma count_while_high_bits:
  "m \<le> LENGTH('a) \<Longrightarrow>
   count_while (NOT (mask m) :: 'a::len word) count = count + (LENGTH('a) - m)"
proof (induction "LENGTH('a) - m" arbitrary: m count)
  case 0
  then have "(NOT (mask m) :: 'a word) = 0"
    by (simp add: not_mask_eq_0_iff)
  with 0 show ?case
    by (simp add: count_while.simps)
next
  case (Suc d)
  then have lt: "m < LENGTH('a)" and d: "d = LENGTH('a) - Suc m"
    by simp_all
  from lt have nz: "(NOT (mask m) :: 'a word) \<noteq> 0"
    by (simp add: not_mask_eq_0_iff)
  have "count_while (NOT (mask m) :: 'a word) count =
        count_while (NOT (mask (Suc m)) :: 'a word) (count + 1)"
    using nz by (subst count_while.simps) (simp add: clear_lowest_of_high_bits)
  also have "\<dots> = count + 1 + (LENGTH('a) - Suc m)"
    using lt by (intro Suc.hyps(1) [OF d]) simp
  finally show ?case
    using lt by simp
qed

lemma count_while_all_ones:
  "count_while (- 1 :: 'a::len word) count = count + LENGTH('a)"
  using count_while_high_bits [of 0 count, where ?'a = 'a] by simp

lemma rep_byte_255: "(rep_byte k 255 :: 'a::len word) = mask (8 * k)"
proof (induction k)
  case 0
  then show ?case by simp
next
  case (Suc k)
  have byte: "(ucast (255 :: 8 word) :: 'a word) = mask 8"
    by (simp add: mask_eq_exp_minus_1)
  have "(push_bit 8 (mask (8 * k)) OR mask 8 :: 'a word) = mask (8 * Suc k)"
    by (rule bit_eqI) (auto simp add: bit_simps)
  with Suc byte show ?case
    by (simp only: rep_byte.simps)
qed

lemma rep_byte_all_ones:
  assumes "8 dvd LENGTH('a::len)"
  shows "(rep_byte (LENGTH('a) div 8) 255 :: 'a word) = - 1"
proof -
  have "8 * (LENGTH('a) div 8) = LENGTH('a)"
    using assms by simp
  then show ?thesis
    by (simp add: rep_byte_255)
qed


lemma bitset_set_all_result:
  fixes b :: "'a::len bitset"
  assumes "bitset_wf b" and "8 dvd LENGTH('a)"
  shows "bitset_set_all is_constant_evaluated b =
         Inr (b\<lparr>m_data := replicate (m_storage_size b) (- 1)\<rparr>)"
proof (cases is_constant_evaluated)
  case True
  with assms(1) show ?thesis
    by (simp add: bitset_set_all_def bitset_wf_def map_replicate_const)
next
  case False
  have "8 \<le> LENGTH('a)"
    using assms(2) by (rule dvd_imp_le) simp
  from memset_whole [OF this, of "m_data b" 255] False assms show ?thesis
    by (simp add: bitset_set_all_def bitset_wf_def set_data_def rep_byte_all_ones)
qed

lemma bitset_clear_all_result:
  fixes b :: "'a::len bitset"
  assumes "bitset_wf b" and "8 \<le> LENGTH('a)"
  shows "bitset_clear_all is_constant_evaluated b =
         Inr (b\<lparr>m_data := replicate (m_storage_size b) 0\<rparr>)"
proof (cases is_constant_evaluated)
  case True
  with assms(1) show ?thesis
    by (simp add: bitset_clear_all_def bitset_wf_def map_replicate_const)
next
  case False
  from memset_whole [OF assms(2), of "m_data b" 0] False assms(1) show ?thesis
    by (simp add: bitset_clear_all_def bitset_wf_def set_data_def rep_byte_zero)
qed

lemma count_replicate:
  assumes "\<And>count. count_while w count = count + c"
  shows "for_loop 0 n
           (\<lambda>i count. andThen (at (replicate n w) i) (\<lambda>j. Inr (count_while j count))) 0
         = Inr (n * c)"
proof -
  have "\<exists>s'. for_loop 0 n
           (\<lambda>i count. andThen (at (replicate n w) i) (\<lambda>j. Inr (count_while j count))) 0
         = Inr s' \<and> s' = n * c"
    by (rule for_loop_rule [where I = "\<lambda>i count. count = i * c"])
      (simp_all add: at_replicate assms)
  then show ?thesis
    by simp
qed

lemma bitset_count_after_set_all:
  fixes b :: "'a::len bitset"
  assumes "bitset_wf b" and "8 dvd LENGTH('a)"
  shows "andThen (bitset_set_all is_constant_evaluated b) bitset_count =
         Inr (m_storage_size b * LENGTH('a))"
proof -
  have "m_storage_size (b\<lparr>m_data := replicate (m_storage_size b) (- 1)\<rparr>) = m_storage_size b"
    by (simp add: m_storage_size_def m_partial_size_def)
  then show ?thesis
    using count_replicate [of "- 1 :: 'a word" "LENGTH('a)" "m_storage_size b"]
    by (simp add: bitset_set_all_result [OF assms] bitset_count_def count_while_all_ones)
qed

lemma bitset_count_after_clear_all:
  fixes b :: "'a::len bitset"
  assumes "bitset_wf b" and "8 \<le> LENGTH('a)"
  shows "andThen (bitset_clear_all is_constant_evaluated b) bitset_count = Inr 0"
proof -
  have "m_storage_size (b\<lparr>m_data := replicate (m_storage_size b) 0\<rparr>) = m_storage_size b"
    by (simp add: m_storage_size_def m_partial_size_def)
  then show ?thesis
    using count_replicate [of "0 :: 'a word" 0 "m_storage_size b"]
    by (simp add: bitset_clear_all_result [OF assms] bitset_count_def count_while_zero)
qed

lemma bitset_count_after_set_all_aligned:
  fixes b :: "'a::len bitset"
  assumes "bitset_wf b" and "8 dvd LENGTH('a)" and "Size b mod LENGTH('a) = 0"
  shows "andThen (bitset_set_all is_constant_evaluated b) bitset_count = Inr (Size b)"
proof -
  have "m_storage_size b * LENGTH('a) = Size b"
    using assms(3) by (simp add: m_storage_size_def m_partial_size_def mod_eq_0_iff_dvd)
  with bitset_count_after_set_all [OF assms(1,2)] show ?thesis
    by simp
qed

lemma bitset_count_after_set_all_unaligned:
  fixes b :: "'a::len bitset"
  assumes "bitset_wf b" and "8 dvd LENGTH('a)" and "Size b mod LENGTH('a) \<noteq> 0"
  shows "\<exists>n. andThen (bitset_set_all is_constant_evaluated b) bitset_count = Inr n \<and> Size b < n"
proof -
  have "Size b < (Size b div LENGTH('a) + 1) * LENGTH('a)"
    using dividend_less_div_times [of "LENGTH('a)" "Size b"] by (simp add: algebra_simps)
  then have "Size b < m_storage_size b * LENGTH('a)"
    using assms(3) by (simp add: m_storage_size_def m_partial_size_def)
  with bitset_count_after_set_all [OF assms(1,2)] show ?thesis
    by simp
qed

subsection \<open>Left shift\<close>

text \<open>
  \<open>operator<<\<close> computes every block of its result from the blocks of the operand.
  Shifting by 0 returns the operand, shifting by the block width moves block \<open>i\<close> to
  block \<open>i + 1\<close>, and a block displacement of \<open>m_storage_size\<close> or more gives zeros.
  \<open>operator<<=\<close> agrees for a shift by 0 and for such a large displacement.
\<close>

lemma bitset_shl_blocks:
  fixes b :: "'a::len bitset"
  assumes "bitset_wf b"
  shows "\<exists>r. bitset_shl shift b = Inr r \<and> Size r = Size b \<and>
     length (m_data r) = m_storage_size b \<and>
     (\<forall>i<m_storage_size b. m_data r ! i =
        (if shift div LENGTH('a) \<le> i
         then push_bit (shift mod LENGTH('a)) (m_data b ! (i - shift div LENGTH('a))) else 0) OR
        (if 0 < shift mod LENGTH('a) \<and> shift div LENGTH('a) + 1 \<le> i
         then drop_bit (LENGTH('a) - shift mod LENGTH('a))
                (m_data b ! (i - shift div LENGTH('a) - 1))
         else 0))"
proof -
  let ?W = "LENGTH('a)"
  define n where "n = m_storage_size b"
  define bs where "bs = shift div ?W"
  define bt where "bt = shift mod ?W"
  define F :: "nat \<Rightarrow> 'a word" where "F i =
        (if bs \<le> i then push_bit bt (m_data b ! (i - bs)) else 0) OR
        (if 0 < bt \<and> bs + 1 \<le> i then drop_bit (?W - bt) (m_data b ! (i - bs - 1)) else 0)" for i
  define body :: "nat \<Rightarrow> 'a word list \<Rightarrow> ub + 'a word list" where "body =
     (\<lambda>i r. andThen
                   (if bs \<le> i
                    then andThen (at (m_data b) (i - bs))
                           (\<lambda>w. put r i (push_bit bt w))
                    else put r i 0)
                   (\<lambda>r1.
                      if 0 < bt \<and> bs + 1 \<le> i
                      then andThen (at (m_data b) (i - bs - 1))
                             (\<lambda>w. modify r1 i (\<lambda>v. v OR drop_bit (?W - bt) w))
                      else Inr r1))"
  define I :: "nat \<Rightarrow> 'a word list \<Rightarrow> bool"
    where "I i r \<longleftrightarrow> length r = n \<and> (\<forall>i'<i. r ! i' = F i')" for i r
  have len: "length (m_data b) = n"
    using assms by (simp add: bitset_wf_def n_def)
  have step: "\<exists>r'. body k r = Inr r' \<and> I (Suc k) r'" if "k < n" and "I k r" for k r
  proof -
    have "k - bs < n" and "k - bs - 1 < n"
      using that(1) by simp_all
    then have "body k r = Inr (r[k := F k])"
      using that len by (simp add: body_def I_def at_def put_def modify_def F_def)
    moreover have "I (Suc k) (r[k := F k])"
      using that by (auto simp add: I_def less_Suc_eq nth_list_update)
    ultimately show ?thesis
      by blast
  qed
  have "I 0 (m_data (bitset_empty (Size b) :: 'a bitset))"
    using length_bitset_empty [of "Size b", where ?'a = 'a]
    by (simp add: I_def n_def m_storage_size_def m_partial_size_def bitset_empty_def)
  then have "\<exists>r. for_loop 0 n body (m_data (bitset_empty (Size b) :: 'a bitset)) = Inr r \<and> I n r"
    using step by (intro for_loop_rule [where I = I]) simp_all
  then obtain r where loop: "for_loop 0 n body (m_data (bitset_empty (Size b) :: 'a bitset)) = Inr r"
    and r: "I n r"
    by blast
  have "bitset_shl shift b =
      set_data (bitset_empty (Size b)) (for_loop 0 n body (m_data (bitset_empty (Size b) :: 'a bitset)))"
    unfolding bitset_shl_def Let_def n_def bs_def bt_def body_def ..
  with loop have "bitset_shl shift b = Inr ((bitset_empty (Size b) :: 'a bitset)\<lparr>m_data := r\<rparr>)"
    by (simp add: set_data_def)
  with r show ?thesis
    unfolding I_def F_def n_def bs_def bt_def
    by (intro exI [of _ "(bitset_empty (Size b) :: 'a bitset)\<lparr>m_data := r\<rparr>"])
      (simp add: bitset_empty_def)
qed

lemma bitset_shl_zero:
  fixes b :: "'a::len bitset"
  assumes "bitset_wf b"
  shows "bitset_shl 0 b = Inr b"
proof -
  from bitset_shl_blocks [OF assms, of 0] obtain r where r: "bitset_shl 0 b = Inr r"
    and "Size r = Size b" and len: "length (m_data r) = m_storage_size b"
    and blocks: "\<forall>i<m_storage_size b. m_data r ! i = m_data b ! i"
    by auto
  have "m_data r = m_data b"
    using len blocks assms by (intro nth_equalityI) (simp_all add: bitset_wf_def)
  with \<open>Size r = Size b\<close> have "r = b"
    by simp
  with r show ?thesis
    by simp
qed

lemma bitset_shl_block_width:
  fixes b :: "'a::len bitset"
  assumes "bitset_wf b"
  shows "\<exists>r. bitset_shl LENGTH('a) b = Inr r \<and> length (m_data r) = m_storage_size b \<and>
     (0 < m_storage_size b \<longrightarrow> m_data r ! 0 = 0) \<and>
     (\<forall>i. i + 1 < m_storage_size b \<longrightarrow> m_data r ! (i + 1) = m_data b ! i)"
proof -
  from bitset_shl_blocks [OF assms, of "LENGTH('a)"] obtain r
    where r: "bitset_shl LENGTH('a) b = Inr r"
      and len: "length (m_data r) = m_storage_size b"
      and blocks: "\<forall>i<m_storage_size b. m_data r ! i = (if 1 \<le> i then m_data b ! (i - 1) else 0)"
    by auto
  from blocks have first: "0 < m_storage_size b \<longrightarrow> m_data r ! 0 = 0"
    by simp
  from blocks have moved: "\<forall>i. i + 1 < m_storage_size b \<longrightarrow> m_data r ! (i + 1) = m_data b ! i"
    by simp
  from r len first moved show ?thesis
    by (intro exI [of _ r] conjI)
qed

lemma bitset_shl_beyond:
  fixes b :: "'a::len bitset"
  assumes "bitset_wf b" and "m_storage_size b \<le> shift div LENGTH('a)"
  shows "\<exists>r. bitset_shl shift b = Inr r \<and> length (m_data r) = m_storage_size b \<and>
     (\<forall>i<m_storage_size b. m_data r ! i = 0)"
proof -
  from bitset_shl_blocks [OF assms(1), of shift] obtain r
    where r: "bitset_shl shift b = Inr r"
      and len: "length (m_data r) = m_storage_size b"
      and blocks: "\<forall>i<m_storage_size b. m_data r ! i =
        (if shift div LENGTH('a) \<le> i
         then push_bit (shift mod LENGTH('a)) (m_data b ! (i - shift div LENGTH('a))) else 0) OR
        (if 0 < shift mod LENGTH('a) \<and> shift div LENGTH('a) + 1 \<le> i
         then drop_bit (LENGTH('a) - shift mod LENGTH('a))
                (m_data b ! (i - shift div LENGTH('a) - 1))
         else 0)"
    by blast
  have "\<forall>i<m_storage_size b. m_data r ! i = 0"
    using blocks assms(2) by simp
  with r len show ?thesis
    by (intro exI [of _ r] conjI)
qed

lemma bitset_shl_assign_zero:
  fixes b :: "'a::len bitset"
  assumes "bitset_wf b"
  shows "bitset_shl_assign 0 b = Inr b"
proof -
  let ?body = "\<lambda>i d. andThen
                   (if (0::nat) \<le> i
                    then andThen (at d (i - 0))
                           (\<lambda>w. put d i (push_bit 0 w))
                    else put d i (0 :: 'a word))
                   (\<lambda>d1.
                      if (0::nat) < 0 \<and> 0 + 1 \<le> i
                      then andThen (at d1 (i - 0 - 1))
                             (\<lambda>w. modify d1 i (\<lambda>v. v OR drop_bit (LENGTH('a) - 0) w))
                      else Inr d1)"
  have "for_loop 0 (m_storage_size b) ?body (m_data b) = Inr (m_data b)"
    using assms by (intro for_loop_unchanged) (simp add: bitset_wf_def at_def put_def)
  then show ?thesis
    by (simp add: bitset_shl_assign_def set_data_def)
qed

lemma bitset_shl_assign_beyond:
  fixes b :: "'a::len bitset"
  assumes "bitset_wf b" and "m_storage_size b \<le> shift div LENGTH('a)"
  shows "\<exists>r. bitset_shl_assign shift b = Inr r \<and> length (m_data r) = m_storage_size b \<and>
     (\<forall>i<m_storage_size b. m_data r ! i = 0)"
proof -
  let ?W = "LENGTH('a)"
  define n where "n = m_storage_size b"
  define bs where "bs = shift div ?W"
  define bt where "bt = shift mod ?W"
  define body :: "nat \<Rightarrow> 'a word list \<Rightarrow> ub + 'a word list" where "body =
     (\<lambda>i d. andThen
                   (if bs \<le> i
                    then andThen (at d (i - bs))
                           (\<lambda>w. put d i (push_bit bt w))
                    else put d i 0)
                   (\<lambda>d1.
                      if 0 < bt \<and> bs + 1 \<le> i
                      then andThen (at d1 (i - bs - 1))
                             (\<lambda>w. modify d1 i (\<lambda>v. v OR drop_bit (?W - bt) w))
                      else Inr d1))"
  define I :: "nat \<Rightarrow> 'a word list \<Rightarrow> bool"
    where "I i d \<longleftrightarrow> length d = n \<and> (\<forall>i'<i. d ! i' = 0)" for i d
  have big: "n \<le> bs"
    using assms(2) by (simp add: n_def bs_def)
  have step: "\<exists>d'. body k d = Inr d' \<and> I (Suc k) d'" if "k < n" and "I k d" for k d
  proof -
    have "body k d = Inr (d[k := 0])"
      using that big by (simp add: body_def I_def put_def)
    moreover have "I (Suc k) (d[k := 0])"
      using that by (auto simp add: I_def less_Suc_eq nth_list_update)
    ultimately show ?thesis
      by blast
  qed
  have "I 0 (m_data b)"
    using assms(1) by (simp add: I_def n_def bitset_wf_def)
  then have "\<exists>d. for_loop 0 n body (m_data b) = Inr d \<and> I n d"
    using step by (intro for_loop_rule [where I = I]) simp_all
  then obtain d where loop: "for_loop 0 n body (m_data b) = Inr d" and d: "I n d"
    by blast
  have "bitset_shl_assign shift b = set_data b (for_loop 0 n body (m_data b))"
    unfolding bitset_shl_assign_def Let_def n_def bs_def bt_def body_def ..
  with loop have "bitset_shl_assign shift b = Inr (b\<lparr>m_data := d\<rparr>)"
    by (simp add: set_data_def)
  with d show ?thesis
    unfolding I_def n_def
    by (intro exI [of _ "b\<lparr>m_data := d\<rparr>"]) simp
qed

text \<open>
  \<open>operator<<=\<close> by the block width writes 0 to block 0 and then copies it upwards:
  every block of the result is 0, whatever the operand held.
\<close>

lemma bitset_shl_assign_block_width:
  fixes b :: "'a::len bitset"
  assumes "bitset_wf b"
  shows "\<exists>r. bitset_shl_assign LENGTH('a) b = Inr r \<and> length (m_data r) = m_storage_size b \<and>
     (\<forall>i<m_storage_size b. m_data r ! i = 0)"
proof -
  define n where "n = m_storage_size b"
  define body :: "nat \<Rightarrow> 'a word list \<Rightarrow> ub + 'a word list" where "body =
     (\<lambda>i d. andThen
                   (if LENGTH('a) div LENGTH('a) \<le> i
                    then andThen (at d (i - LENGTH('a) div LENGTH('a)))
                           (\<lambda>w. put d i (push_bit (LENGTH('a) mod LENGTH('a)) w))
                    else put d i 0)
                   (\<lambda>d1.
                      if 0 < LENGTH('a) mod LENGTH('a) \<and> LENGTH('a) div LENGTH('a) + 1 \<le> i
                      then andThen (at d1 (i - LENGTH('a) div LENGTH('a) - 1))
                             (\<lambda>w. modify d1 i
                                (\<lambda>v. v OR drop_bit (LENGTH('a) - LENGTH('a) mod LENGTH('a)) w))
                      else Inr d1))"
  define I :: "nat \<Rightarrow> 'a word list \<Rightarrow> bool"
    where "I i d \<longleftrightarrow> length d = n \<and> (\<forall>i'<i. d ! i' = 0)" for i d
  have step: "\<exists>d'. body k d = Inr d' \<and> I (Suc k) d'" if "k < n" and "I k d" for k d
  proof -
    have "body k d = Inr (d[k := 0])"
    proof (cases k)
      case 0
      with that have "d \<noteq> []"
        by (auto simp add: I_def)
      with 0 show ?thesis
        by (simp add: body_def put_def)
    next
      case (Suc k')
      with that have "d ! k' = 0" and "k' < length d"
        by (simp_all add: I_def)
      with Suc that show ?thesis
        by (simp add: body_def I_def put_def at_def)
    qed
    moreover have "I (Suc k) (d[k := 0])"
      using that by (auto simp add: I_def less_Suc_eq nth_list_update)
    ultimately show ?thesis
      by blast
  qed
  have "I 0 (m_data b)"
    using assms(1) by (simp add: I_def n_def bitset_wf_def)
  then have "\<exists>d. for_loop 0 n body (m_data b) = Inr d \<and> I n d"
    using step by (intro for_loop_rule [where I = I]) simp_all
  then obtain d where loop: "for_loop 0 n body (m_data b) = Inr d" and d: "I n d"
    by blast
  have "bitset_shl_assign LENGTH('a) b = set_data b (for_loop 0 n body (m_data b))"
    unfolding bitset_shl_assign_def Let_def n_def body_def ..
  with loop have "bitset_shl_assign LENGTH('a) b = Inr (b\<lparr>m_data := d\<rparr>)"
    by (simp add: set_data_def)
  with d show ?thesis
    unfolding I_def n_def
    by (intro exI [of _ "b\<lparr>m_data := d\<rparr>"]) simp
qed

subsection \<open>Comparison\<close>

text \<open>
  For dynamic bitsets of equal size without a partial block, \<open>operator!=\<close> compares
  nothing and returns true. For fixed-size bitsets with a full block, \<open>operator!=\<close>
  returns false as soon as the first blocks are equal, whatever the other blocks hold.
\<close>

lemma dynamic_bitset_ne_same_size_aligned:
  fixes s :: "'a::len dynamic_bitset"
  assumes "dyn_size s = dyn_size other" and "dyn_partial_size s = 0"
  shows "dynamic_bitset_ne s other = Inr True"
  using assms by (simp add: dynamic_bitset_ne_def)

lemma bitset_ne_first_block_equal:
  fixes b :: "'a::len bitset"
  assumes "0 < m_full_storage_size b"
    and "m_data b \<noteq> []" and "m_data other \<noteq> []"
    and "m_data b ! 0 = m_data other ! 0"
  shows "bitset_ne b other = Inr False"
  using assms
  by (simp add: bitset_ne_def for_loop_ret.simps [of 0] at_def)

subsection \<open>Strings\<close>

text \<open>
  Whatever \<open>to_string\<close> returns has \<open>Size + 1\<close> characters, so no string of \<open>Size\<close>
  characters survives the round trip.
\<close>

lemma for_loop_preserves:
  assumes "for_loop i hi body s = Inr s'" and "P s"
    and step: "\<And>k s s'. P s \<Longrightarrow> body k s = Inr s' \<Longrightarrow> P s'"
  shows "P s'"
  using assms(1,2)
proof (induction "hi - i" arbitrary: i s)
  case 0
  then show ?case
    by (simp add: for_loop.simps)
next
  case (Suc d)
  then have lt: "i < hi" and d: "d = hi - Suc i"
    by simp_all
  from Suc.prems(1) lt obtain s1 where s1: "body i s = Inr s1"
    and rest: "for_loop (Suc i) hi body s1 = Inr s'"
    by (subst (asm) for_loop.simps) (auto simp add: andThen_def split: sum.splits)
  from step [OF Suc.prems(2) s1] have "P s1" .
  with Suc.hyps(1) [OF d rest] show ?case .
qed

lemma put_length: "put a i v = Inr a' \<Longrightarrow> length a' = length a"
  by (auto simp add: put_def split: if_splits)

lemma bitset_to_string_length:
  assumes "bitset_to_string set_chr rst_chr b = Inr str"
  shows "length str = Size b + 1"
proof -
  let ?W = "LENGTH('a)"
  let ?P = "\<lambda>res :: string. length res = Size b + 1"
  let ?full = "for_loop 0 (m_storage_size b - (if m_partial_size b \<noteq> 0 then 1 else 0))
     (\<lambda>i res. for_loop 0 ?W
        (\<lambda>j res. andThen (at (m_data b) i)
           (\<lambda>w. put res (i * ?W + j) (if w AND push_bit j 1 \<noteq> 0 then set_chr else rst_chr)))
        res)
     (replicate (Size b + 1) (CHR 0x00))"
  have cell: "?P res'" if "?P res"
    and "andThen (at (m_data b) i) (\<lambda>w. put res k (f w)) = Inr res'" for res res' i k f
    using that by (auto simp add: andThen_def dest: put_length split: sum.splits)
  from assms obtain res1 where full: "?full = Inr res1"
    and rest: "(if m_storage_size b \<noteq> 0
           then for_loop 0 (m_partial_size b)
                  (\<lambda>i res. andThen (at (m_data b) i)
                     (\<lambda>w. put res ((m_storage_size b - 1) * ?W + i)
                            (if w AND push_bit i 1 \<noteq> 0 then set_chr else rst_chr)))
                  res1
           else Inr res1) = Inr str"
    unfolding bitset_to_string_def Let_def
    by (cases ?full) simp_all
  have "?P res1"
  proof (rule for_loop_preserves [where P = ?P, OF full])
    show "?P (replicate (Size b + 1) (CHR 0x00))"
      by simp
  next
    fix k and s s' :: string
    assume "?P s" and inner: "for_loop 0 ?W
        (\<lambda>j res. andThen (at (m_data b) k)
           (\<lambda>w. put res (k * ?W + j) (if w AND push_bit j 1 \<noteq> 0 then set_chr else rst_chr)))
        s = Inr s'"
    show "?P s'"
      by (rule for_loop_preserves [where P = ?P, OF inner \<open>?P s\<close>]) (rule cell)
  qed
  show ?thesis
  proof (cases "m_storage_size b \<noteq> 0")
    case True
    with rest have "for_loop 0 (m_partial_size b)
        (\<lambda>i res. andThen (at (m_data b) i)
           (\<lambda>w. put res ((m_storage_size b - 1) * ?W + i)
                  (if w AND push_bit i 1 \<noteq> 0 then set_chr else rst_chr)))
        res1 = Inr str"
      by simp
    then show ?thesis
      by (rule for_loop_preserves [where P = ?P, OF _ \<open>?P res1\<close>]) (rule cell)
  next
    case False
    with rest \<open>?P res1\<close> show ?thesis
      by simp
  qed
qed

lemma set_data_Size: "set_data b r = Inr b' \<Longrightarrow> Size b' = Size b"
  by (auto simp add: set_data_def andThen_def split: sum.splits)

lemma bitset_round_trip_never:
  assumes "length str = n"
  shows "andThen (bitset_of_string n str set_chr :: ub + 'a::len bitset)
           (bitset_to_string set_chr rst_chr) \<noteq> Inr str"
proof
  assume eq: "andThen (bitset_of_string n str set_chr :: ub + 'a bitset)
           (bitset_to_string set_chr rst_chr) = Inr str"
  then obtain b :: "'a bitset" where b: "bitset_of_string n str set_chr = Inr b"
    and str: "bitset_to_string set_chr rst_chr b = Inr str"
    by (auto simp add: andThen_def split: sum.splits)
  from b have "Size b = n"
    by (auto simp add: bitset_of_string_def bitset_from_string_def bitset_empty_def
        dest!: set_data_Size)
  with bitset_to_string_length [OF str] assms show False
    by simp
qed

subsection \<open>Growing and shrinking\<close>

text \<open>
  When \<open>m_size\<close> is a multiple of the block width, \<open>push_back\<close> ends in undefined
  behaviour, for every block type and every state: \<open>m_partial_size\<close> is 0 when the
  shift count \<open>m_partial_size - 1\<close> is computed.
\<close>

lemma push_back_aligned_undefined:
  fixes s :: "'a::len dynamic_bitset"
  assumes "dyn_size s mod LENGTH('a) = 0"
  shows "\<exists>e. dynamic_bitset_push_back junk v s = Inl e"
proof -
  let ?storage = "size_inc (dyn_storage_size s)"
  let ?grow = "andThen
     (case dyn_data s of
        None \<Rightarrow> Inr (new_array junk ?storage)
      | Some a \<Rightarrow> copy_blocks a ?storage (new_array junk ?storage))
     (\<lambda>new_data. andThen (put new_data (size_dec ?storage) 0)
        (\<lambda>new_data.
           Inr (s\<lparr>dyn_partial_size := 0, dyn_storage_size := ?storage,
                  dyn_size := size_inc (dyn_size s), dyn_data := Some new_data\<rparr>)))"
  have shift: "(shl_one (int 0 - 1) :: ub + 'a word) = Inl BadShift"
    by (simp add: shl_one_def)
  show ?thesis
  proof (cases ?grow)
    case (Inl e)
    with assms show ?thesis
      by (simp add: dynamic_bitset_push_back_def Let_def)
  next
    case (Inr s1)
    then have "dyn_partial_size s1 = 0"
      by (auto simp add: andThen_def split: sum.splits)
    with Inr assms shift show ?thesis
      by (simp add: dynamic_bitset_push_back_def Let_def)
  qed
qed

text \<open>
  When \<open>m_size\<close> is not a multiple of the block width (and the members are
  consistent with it), \<open>push_back(v)\<close> adds one bit of value \<open>v\<close>, keeps the bits
  below, and \<open>pop_back()\<close> restores the size and keeps those bits.
\<close>

lemma dynamic_bitset_test_bit:
  fixes s :: "'a::len dynamic_bitset"
  shows "dynamic_bitset_test j s =
     (case dyn_data s of
        None \<Rightarrow> Inl NullPointer
      | Some a \<Rightarrow>
          if j div LENGTH('a) < length a
          then Inr (bit (a ! (j div LENGTH('a))) (j mod LENGTH('a)))
          else Inl OutOfBounds)"
  by (simp add: dynamic_bitset_test_def deref_def at_def bit_iff_and_push_bit_not_eq_0
      split: option.splits)

lemma push_back_pop_back_unaligned:
  fixes s :: "'a::len dynamic_bitset"
  assumes unaligned: "dyn_size s mod LENGTH('a) \<noteq> 0"
    and partial: "dyn_partial_size s = dyn_size s mod LENGTH('a)"
    and storage: "dyn_storage_size s = dyn_size s div LENGTH('a) + 1"
    and data: "dyn_data s = Some a" "dyn_storage_size s \<le> length a"
    and bound: "dyn_size s < 2 ^ 64 - 1" "LENGTH('a) < 256"
  shows "\<exists>s'. dynamic_bitset_push_back junk v s = Inr s' \<and>
           dyn_size s' = dyn_size s + 1 \<and>
           dynamic_bitset_test (dyn_size s) s' = Inr v \<and>
           (\<forall>i<dyn_size s. dynamic_bitset_test i s' = dynamic_bitset_test i s) \<and>
           (\<exists>s''. dynamic_bitset_pop_back junk s' = Inr s'' \<and>
              dyn_size s'' = dyn_size s \<and>
              (\<forall>i<dyn_size s. dynamic_bitset_test i s'' = dynamic_bitset_test i s))"
proof -
  let ?W = "LENGTH('a)"
  let ?n = "dyn_size s"
  let ?k = "?n mod ?W"
  let ?bit = "push_bit ?k 1 :: 'a word"
  let ?blk = "?n div ?W"
  let ?a' = "a[?blk := (if v then a ! ?blk OR ?bit else a ! ?blk AND NOT ?bit)]"
  let ?s' = "s\<lparr>dyn_partial_size := ?k + 1, dyn_size := ?n + 1, dyn_data := Some ?a'\<rparr>"
  have k: "?k < ?W"
    by simp
  have blk: "?blk < length a"
    using storage data(2) by simp
  have inc: "size_inc ?n = ?n + 1"
    using bound(1) by (rule size_inc_small)
  have k1: "?k + 1 < 256"
    using k bound(2) by linarith
  have pinc: "uint8_inc ?k = ?k + 1"
    using k1 by (simp add: uint8_inc_def)
  have dec: "size_dec (dyn_storage_size s) = ?blk"
  proof -
    have "?blk \<le> ?n"
      by simp
    moreover have "?n < 18446744073709551615"
      using bound(1) by simp
    ultimately have "?blk + 1 < 18446744073709551616"
      by linarith
    then have "?blk + 1 < 2 ^ 64"
      by simp
    then show ?thesis
      using size_dec_pos [of "?blk + 1"] storage by simp
  qed
  have "\<not> max 32 ?W \<le> ?k"
    using k by linarith
  then have shift: "shl_one (int (?k + 1) - 1) = Inr ?bit"
    by (simp add: shl_one_def del: push_bit_of_1)
  have push: "dynamic_bitset_push_back junk v s = Inr ?s'"
    using unaligned partial data(1) inc pinc dec shift blk
    by (simp add: dynamic_bitset_push_back_def deref_def set_dyn_data_def modify_def
        del: push_bit_of_1 of_nat_add of_nat_Suc)
  have new_bit: "bit (?a' ! ?blk) ?k \<longleftrightarrow> v"
    using blk k by (simp add: bit_set_one bit_clear_one del: push_bit_of_1)
  have top: "dynamic_bitset_test ?n ?s' = Inr v"
    using blk new_bit by (simp add: dynamic_bitset_test_bit del: push_bit_of_1)
  have other: "dynamic_bitset_test i ?s' = dynamic_bitset_test i s" if "i \<noteq> ?n" for i
  proof (cases "i div ?W = ?blk")
    case True
    with that have "i mod ?W \<noteq> ?k"
      by (metis div_mult_mod_eq)
    with True blk k data(1) show ?thesis
      by (simp add: dynamic_bitset_test_bit bit_set_one bit_clear_one del: push_bit_of_1)
  next
    case False
    with data(1) show ?thesis
      by (simp add: dynamic_bitset_test_bit)
  qed
  let ?s'' = "?s'\<lparr>dyn_partial_size := ?k, dyn_size := ?n\<rparr>"
  have dec': "size_dec (?n + 1) = ?n"
    using size_dec_pos [of "?n + 1"] bound(1) by simp
  have pdec: "uint8_dec (?k + 1) = ?k"
  proof -
    have eq: "?k + 1 + 2 ^ 8 - 1 = ?k + 2 ^ 8"
      by simp
    show ?thesis
      unfolding uint8_dec_def eq using k1 by simp
  qed
  have pop: "dynamic_bitset_pop_back junk ?s' = Inr ?s''"
    using unaligned dec' pdec by (simp add: dynamic_bitset_pop_back_def Let_def)
  have other'': "dynamic_bitset_test i ?s'' = dynamic_bitset_test i s" if "i \<noteq> ?n" for i
  proof -
    have "dynamic_bitset_test i ?s'' = dynamic_bitset_test i ?s'"
      by (simp add: dynamic_bitset_test_bit)
    with other [OF that] show ?thesis
      by simp
  qed
  show ?thesis
  proof (rule exI [of _ ?s'], intro conjI allI impI)
    show "dynamic_bitset_push_back junk v s = Inr ?s'"
      by (rule push)
    show "dyn_size ?s' = ?n + 1"
      by simp
    show "dynamic_bitset_test ?n ?s' = Inr v"
      by (rule top)
    show "dynamic_bitset_test i ?s' = dynamic_bitset_test i s" if "i < ?n" for i
      using that by (intro other) simp
    show "\<exists>s''. dynamic_bitset_pop_back junk ?s' = Inr s'' \<and> dyn_size s'' = ?n \<and>
        (\<forall>i<?n. dynamic_bitset_test i s'' = dynamic_bitset_test i s)"
      using pop other'' by (intro exI [of _ ?s'']) simp
  qed
qed

text \<open>An instance: five bits in one 8-bit block.\<close>

lemma push_back_pop_back_unaligned_example:
  "\<exists>s'. dynamic_bitset_push_back junk True
           (\<lparr>dyn_partial_size = 5, dyn_storage_size = 1, dyn_size = 5,
             dyn_data = Some [0x15]\<rparr> :: 8 dynamic_bitset) = Inr s' \<and>
         dyn_size s' = 6 \<and> dynamic_bitset_test 5 s' = Inr True \<and>
         (\<exists>s''. dynamic_bitset_pop_back junk s' = Inr s'' \<and> dyn_size s'' = 5)"
proof -
  let ?s = "\<lparr>dyn_partial_size = 5, dyn_storage_size = 1, dyn_size = 5,
             dyn_data = Some [0x15]\<rparr> :: 8 dynamic_bitset"
  have "\<exists>s'. dynamic_bitset_push_back junk True ?s = Inr s' \<and>
           dyn_size s' = dyn_size ?s + 1 \<and>
           dynamic_bitset_test (dyn_size ?s) s' = Inr True \<and>
           (\<forall>i<dyn_size ?s. dynamic_bitset_test i s' = dynamic_bitset_test i ?s) \<and>
           (\<exists>s''. dynamic_bitset_pop_back junk s' = Inr s'' \<and>
              dyn_size s'' = dyn_size ?s \<and>
              (\<forall>i<dyn_size ?s. dynamic_bitset_test i s'' = dynamic_bitset_test i ?s))"
    by (rule push_back_pop_back_unaligned [where a = "[0x15]"]) simp_all
  then show ?thesis
    by auto
qed

text \<open>
  \<open>pop_back()\<close> on a bitset of one bit, for every block type: the second \<open>--m_size\<close>
  wraps the size around.
\<close>

lemma pop_back_last_bit:
  fixes s :: "'a::len dynamic_bitset"
  assumes "dyn_size s = 1"
  shows "dynamic_bitset_pop_back junk s =
     Inr (s\<lparr>dyn_partial_size := 0, dyn_storage_size := size_dec (dyn_storage_size s),
            dyn_size := 2 ^ 64 - 1, dyn_data := None\<rparr>)"
  using assms by (simp add: dynamic_bitset_pop_back_def size_dec_def Let_def)

text \<open>
  \<open>pop_back_block()\<close> on a bitset of one block leaves \<open>m_size = 0\<close> with \<open>m_data\<close>
  pointing to a fresh array of no blocks, which is not null.
\<close>

lemma pop_back_block_last_block:
  "andThen (dynamic_bitset junk 8 :: ub + 8 dynamic_bitset) (dynamic_bitset_pop_back_block junk)
     = Inr \<lparr>dyn_partial_size = 0, dyn_storage_size = 0, dyn_size = 0, dyn_data = Some []\<rparr> \<and>
   \<not> dynamic_bitset_invariant
     (\<lparr>dyn_partial_size = 0, dyn_storage_size = 0, dyn_size = 0, dyn_data = Some []\<rparr>
        :: 8 dynamic_bitset)"
  by (simp add: run_defs dynamic_bitset_def dynamic_bitset_clear_all_def
      dynamic_bitset_pop_back_block_def dynamic_bitset_invariant_def)

subsection \<open>Conversion to a wider block type\<close>

text \<open>
  The conversion constructor of the fixed-size bitset packs
  \<open>diff = sizeof(dst) / sizeof(src)\<close> consecutive source blocks into each destination
  block: the bits of destination block \<open>i\<close> are those of the source blocks
  \<open>i * diff + j\<close>, \<open>j < diff\<close>, that exist, each shifted left by \<open>j\<close> times the source
  block width; the conversion never fails, and a destination block past the end of
  the source keeps the zero it was initialised with. The 8-bit blocks \<open>[0x01, 0x02]\<close>
  become the 16-bit block \<open>0x0201\<close>.
\<close>

lemma bitset_widening_conversion:
  fixes other :: "'a::len bitset"
  shows "(bitset_wf other \<longrightarrow> LENGTH('a) div 8 < LENGTH('b::len) div 8 \<longrightarrow>
      (let diff = (LENGTH('b) div 8) div (LENGTH('a) div 8) in
       \<exists>r :: 'b bitset. bitset_of_other n other = Inr r \<and> Size r = n \<and> bitset_wf r \<and>
         (\<forall>i<m_storage_size r. \<forall>k. bit (m_data r ! i) k \<longleftrightarrow>
            (\<exists>j<diff. i * diff + j < m_storage_size other \<and>
               bit (push_bit (j * LENGTH('a)) (ucast (m_data other ! (i * diff + j))) :: 'b word) k)) \<and>
         (\<forall>i<m_storage_size r. m_storage_size other \<le> i * diff \<longrightarrow> m_data r ! i = 0))) \<and>
    bitset_of_other 16 \<lparr>Size = 16, m_data = [0x01, 0x02 :: 8 word]\<rparr> =
      Inr \<lparr>Size = 16, m_data = [0x0201 :: 16 word]\<rparr>"
proof (intro conjI impI)
  show "bitset_of_other 16 \<lparr>Size = 16, m_data = [0x01, 0x02 :: 8 word]\<rparr> =
      Inr \<lparr>Size = 16, m_data = [0x0201 :: 16 word]\<rparr>"
    by code_simp
next
  assume wf: "bitset_wf other" and wider: "LENGTH('a) div 8 < LENGTH('b) div 8"
  define diff where "diff = (LENGTH('b) div 8) div (LENGTH('a) div 8)"
  define b :: "'b bitset" where "b = bitset_empty n"
  have len_b: "length (m_data b) = m_storage_size b"
    unfolding b_def by (rule length_bitset_empty)
  have zero: "m_data b ! i = 0" if "i < m_storage_size b" for i
    using that len_b by (simp add: b_def bitset_empty_def)
  from widen_loops [of "m_storage_size b" "m_data b" "m_storage_size other" "m_data other" diff]
  obtain x a' where loops:
    "for_loop_ret 0 (m_storage_size b)
       (\<lambda>i a. for_loop_ret 0 diff
          (\<lambda>j a.
             if m_storage_size other \<le> i * diff + j then Inr (Return a)
             else andThen (at (m_data other) (i * diff + j))
                    (\<lambda>w. andThen
                       (modify a i (\<lambda>v. v OR push_bit (j * LENGTH('a)) (ucast w)))
                       (\<lambda>a1. Inr (Next a1))))
          a)
       (m_data b) = Inr x"
    and x: "x = Return a' \<or> x = Next a'"
    and len: "length a' = length (m_data b)"
    and bits: "\<forall>i<length (m_data b). \<forall>k. bit (a' ! i) k \<longleftrightarrow>
        bit (m_data b ! i) k \<or>
        (i < m_storage_size b \<and> (\<exists>j<diff. i * diff + j < m_storage_size other \<and>
           bit (push_bit (j * LENGTH('a)) (ucast (m_data other ! (i * diff + j))) :: 'b word) k))"
    using wf len_b by (auto simp add: bitset_wf_def)
  let ?r = "b\<lparr>m_data := a'\<rparr>"
  have result: "bitset_of_other n other = Inr ?r"
    using wider loops x
    by (auto simp add: bitset_of_other_def bitset_from_other_def Let_def set_data_def
        b_def [symmetric] diff_def [symmetric])
  have size: "Size ?r = n"
    by (simp add: b_def bitset_empty_def)
  have st: "m_storage_size ?r = m_storage_size b"
    by (simp add: m_storage_size_def m_partial_size_def)
  have wf_r: "bitset_wf ?r"
    using len len_b st by (simp add: bitset_wf_def)
  have bits_r: "bit (m_data ?r ! i) k \<longleftrightarrow>
      (\<exists>j<diff. i * diff + j < m_storage_size other \<and>
         bit (push_bit (j * LENGTH('a)) (ucast (m_data other ! (i * diff + j))) :: 'b word) k)"
    if "i < m_storage_size ?r" for i k
    using that bits zero [of i] len_b st by simp
  have zero_r: "m_data ?r ! i = 0" if "i < m_storage_size ?r" and "m_storage_size other \<le> i * diff" for i
  proof (rule bit_eqI)
    fix k
    have "\<not> i * diff + j < m_storage_size other" for j
      using that(2) by simp
    then show "bit (m_data ?r ! i) k \<longleftrightarrow> bit (0 :: 'b word) k"
      using bits_r [OF that(1)] by simp
  qed
  show "let diff = (LENGTH('b) div 8) div (LENGTH('a) div 8) in
       \<exists>r :: 'b bitset. bitset_of_other n other = Inr r \<and> Size r = n \<and> bitset_wf r \<and>
         (\<forall>i<m_storage_size r. \<forall>k. bit (m_data r ! i) k \<longleftrightarrow>
            (\<exists>j<diff. i * diff + j < m_storage_size other \<and>
               bit (push_bit (j * LENGTH('a)) (ucast (m_data other ! (i * diff + j))) :: 'b word) k)) \<and>
         (\<forall>i<m_storage_size r. m_storage_size other \<le> i * diff \<longrightarrow> m_data r ! i = 0)"
    unfolding Let_def diff_def [symmetric]
    using result size wf_r bits_r zero_r by (intro exI [of _ ?r]) blast
qed

lemma bitset_widening_conversion_example:
  "bitset_wf \<lparr>Size = 24, m_data = [0x01, 0x02, 0x03 :: 8 word]\<rparr> \<and>
   LENGTH(8) div 8 < LENGTH(16) div 8 \<and>
   (let diff = (LENGTH(16) div 8) div (LENGTH(8) div 8) in
    \<exists>r :: 16 bitset.
      bitset_of_other 32 \<lparr>Size = 24, m_data = [0x01, 0x02, 0x03 :: 8 word]\<rparr> = Inr r \<and>
      Size r = 32 \<and> bitset_wf r \<and>
      (\<forall>i<m_storage_size r. \<forall>k. bit (m_data r ! i) k \<longleftrightarrow>
         (\<exists>j<diff. i * diff + j <
              m_storage_size \<lparr>Size = 24, m_data = [0x01, 0x02, 0x03 :: 8 word]\<rparr> \<and>
            bit (push_bit (j * LENGTH(8))
                   (ucast (m_data \<lparr>Size = 24, m_data = [0x01, 0x02, 0x03 :: 8 word]\<rparr> !
                      (i * diff + j))) :: 16 word) k)) \<and>
      (\<forall>i<m_storage_size r.
         m_storage_size \<lparr>Size = 24, m_data = [0x01, 0x02, 0x03 :: 8 word]\<rparr> \<le> i * diff \<longrightarrow>
         m_data r ! i = 0))"
proof -
  let ?o = "\<lparr>Size = 24, m_data = [0x01, 0x02, 0x03 :: 8 word]\<rparr>"
  have wf: "bitset_wf ?o"
    by (simp add: bitset_wf_def m_storage_size_def m_partial_size_def)
  have wider: "LENGTH(8) div 8 < LENGTH(16) div 8"
    by simp
  from bitset_widening_conversion [of ?o 32, where ?'b = 16, THEN conjunct1, rule_format, OF wf wider]
    wf wider
  show ?thesis
    by (intro conjI)
qed

text \<open>
  The conversion constructor of the dynamic bitset, for every wider block type and
  every source: the result has one block when \<open>other.m_size\<close> is not a multiple of the
  destination block width, and none otherwise, however many blocks the source has.
\<close>

lemma dynamic_bitset_clear_all_fields:
  "dynamic_bitset_clear_all s = Inr s' \<Longrightarrow>
   dyn_storage_size s' = dyn_storage_size s \<and> dyn_size s' = dyn_size s"
  by (auto simp add: dynamic_bitset_clear_all_def set_dyn_data_def andThen_def split: sum.splits)

lemma set_dyn_data_fields:
  "set_dyn_data s r = Inr s' \<Longrightarrow>
   dyn_storage_size s' = dyn_storage_size s \<and> dyn_size s' = dyn_size s"
  by (auto simp add: set_dyn_data_def andThen_def split: sum.splits)

lemma dynamic_bitset_from_other_fields:
  assumes "dynamic_bitset_from_other other s = Inr s'"
  shows "dyn_storage_size s' = dyn_storage_size s \<and> dyn_size s' = dyn_size s"
proof -
  from assms obtain s1 r where s1: "dynamic_bitset_clear_all s = Inr s1"
    and s': "set_dyn_data s1 r = Inr s'"
    by (auto simp add: dynamic_bitset_from_other_def andThen_def Let_def
        split: sum.splits if_splits)
  from dynamic_bitset_clear_all_fields [OF s1] set_dyn_data_fields [OF s'] show ?thesis
    by simp
qed

lemma dynamic_widening_at_most_one_block:
  fixes other :: "'a::len dynamic_bitset"
  assumes wider: "LENGTH('a) div 8 < LENGTH('b::len) div 8"
    and result: "(dynamic_bitset_of_other junk inexact other :: ub + 'b dynamic_bitset) = Inr s"
  shows "dyn_size s = dyn_size other \<and>
         dyn_storage_size s = (if dyn_size other mod LENGTH('b) \<noteq> 0 then 1 else 0)"
proof -
  have ratio: "(LENGTH('a) div 8) div (LENGTH('b) div 8) = 0"
    using wider by simp
  let ?p = "if dyn_size other mod LENGTH('b) \<noteq> 0 then 1 else 0 :: nat"
  let ?s0 = "\<lparr>dyn_partial_size = dyn_size other mod LENGTH('b), dyn_storage_size = ?p,
              dyn_size = dyn_size other, dyn_data = Some (new_array junk ?p)\<rparr> :: 'b dynamic_bitset"
  have "(dynamic_bitset_of_other junk inexact other :: ub + 'b dynamic_bitset) =
        andThen (dynamic_bitset_clear_all ?s0) (dynamic_bitset_from_other other)"
    by (simp add: dynamic_bitset_of_other_def Let_def ratio)
  with result obtain s1 where s1: "dynamic_bitset_clear_all ?s0 = Inr s1"
    and s: "dynamic_bitset_from_other other s1 = Inr s"
    by (auto simp add: andThen_def split: sum.splits)
  from dynamic_bitset_clear_all_fields [OF s1] dynamic_bitset_from_other_fields [OF s]
  show ?thesis
    by simp
qed

section \<open>The claims\<close>

text \<open>
  Claim C1. For a bit index \<open>i\<close> below \<open>Size\<close>: after \<open>set(i)\<close>, \<open>test(i)\<close> is true;
  after \<open>clear(i)\<close> it is false; after \<open>set(i, v)\<close> it is \<open>v\<close>; \<open>flip(i)\<close> negates
  it; and each of the four leaves \<open>test(j)\<close> as it was for every other index \<open>j\<close>.
  None of them runs into undefined behaviour.
\<close>

theorem bitset_single_bit_operations:
  fixes b :: "'a::len bitset"
  assumes "bitset_wf b" and "i < Size b"
  shows "(\<exists>b'. bitset_set i b = Inr b' \<and> bitset_test i b' = Inr True \<and>
            (\<forall>j. j \<noteq> i \<longrightarrow> bitset_test j b' = bitset_test j b)) \<and>
         (\<exists>b'. bitset_clear i b = Inr b' \<and> bitset_test i b' = Inr False \<and>
            (\<forall>j. j \<noteq> i \<longrightarrow> bitset_test j b' = bitset_test j b)) \<and>
         (\<exists>b'. bitset_set_value i v b = Inr b' \<and> bitset_test i b' = Inr v \<and>
            (\<forall>j. j \<noteq> i \<longrightarrow> bitset_test j b' = bitset_test j b)) \<and>
         (\<exists>b'. bitset_flip i b = Inr b' \<and>
            bitset_test i b' = map_sum id Not (bitset_test i b) \<and>
            (\<forall>j. j \<noteq> i \<longrightarrow> bitset_test j b' = bitset_test j b))"
proof -
  let ?W = "LENGTH('a)"
  let ?k = "i mod ?W"
  have range: "i div ?W < length (m_data b)"
    using assms by (rule block_index_in_range)
  have k: "?k < ?W"
    by simp
  obtain x where x: "bitset_test i b = Inr x"
    using range by (simp add: bitset_test_bit)
  have set_bit: "bit (w OR push_bit ?k 1) n \<longleftrightarrow> (if n = ?k then True else bit w n)"
    for w :: "'a word" and n
    by (rule bit_set_one [OF k])
  have clear_bit: "bit (w AND NOT (push_bit ?k 1)) n \<longleftrightarrow> (if n = ?k then False else bit w n)"
    for w :: "'a word" and n
    by (rule bit_clear_one [OF k])
  have flip_bit: "bit (w XOR push_bit ?k 1) n \<longleftrightarrow> (if n = ?k then \<not> bit w n else bit w n)"
    for w :: "'a word" and n
    by (rule bit_flip_one [OF k])
  have set1: "\<exists>b'. bitset_set i b = Inr b' \<and> bitset_test i b' = Inr True \<and>
      (\<forall>j. j \<noteq> i \<longrightarrow> bitset_test j b' = bitset_test j b)"
    unfolding bitset_set_def
    using modify_block_test [OF range set_bit] x by auto
  have clear1: "\<exists>b'. bitset_clear i b = Inr b' \<and> bitset_test i b' = Inr False \<and>
      (\<forall>j. j \<noteq> i \<longrightarrow> bitset_test j b' = bitset_test j b)"
    unfolding bitset_clear_def
    using modify_block_test [OF range clear_bit] x by auto
  have value1: "\<exists>b'. bitset_set_value i v b = Inr b' \<and> bitset_test i b' = Inr v \<and>
      (\<forall>j. j \<noteq> i \<longrightarrow> bitset_test j b' = bitset_test j b)"
  proof (cases v)
    case True
    with set1 show ?thesis
      by (simp add: bitset_set_value_def bitset_set_def)
  next
    case False
    with clear1 show ?thesis
      by (simp add: bitset_set_value_def bitset_clear_def)
  qed
  have flip1: "\<exists>b'. bitset_flip i b = Inr b' \<and>
      bitset_test i b' = map_sum id Not (bitset_test i b) \<and>
      (\<forall>j. j \<noteq> i \<longrightarrow> bitset_test j b' = bitset_test j b)"
    unfolding bitset_flip_def
    using modify_block_test [OF range flip_bit] by auto
  from set1 clear1 value1 flip1 show ?thesis
    by blast
qed

theorem bitset_single_bit_operations_witness:
  "bitset_wf \<lparr>Size = 12, m_data = [0x5A, 0x03 :: 8 word]\<rparr> \<and>
   (9 :: nat) < Size \<lparr>Size = 12, m_data = [0x5A, 0x03 :: 8 word]\<rparr> \<and>
   (\<exists>b'. bitset_clear 9 \<lparr>Size = 12, m_data = [0x5A, 0x03 :: 8 word]\<rparr> = Inr b' \<and>
      bitset_test 9 b' = Inr False \<and>
      (\<forall>j. j \<noteq> 9 \<longrightarrow>
         bitset_test j b' = bitset_test j \<lparr>Size = 12, m_data = [0x5A, 0x03 :: 8 word]\<rparr>))"
proof -
  let ?b = "\<lparr>Size = 12, m_data = [0x5A, 0x03 :: 8 word]\<rparr>"
  have wf: "bitset_wf ?b"
    by (simp add: bitset_wf_def m_storage_size_def m_partial_size_def)
  have lt: "(9 :: nat) < Size ?b"
    by simp
  from bitset_single_bit_operations [OF wf lt] wf lt show ?thesis
    by blast
qed

text \<open>
  Claim C2. \<open>set_range(begin, end)\<close> is claimed to set every bit of \<open>[begin, end)\<close>.
  When \<open>begin\<close> is a multiple of the block width and \<open>end\<close> lies in the same block,
  neither the leading nor the trailing partial block is processed and no full block
  lies in between: on an all-zero 8-bit bitset of 8-bit blocks, \<open>set_range(0, 4)\<close>
  leaves bit 0 clear, on both branches of the fixed-size bitset and on the dynamic
  bitset.
\<close>

theorem set_range_aligned_begin_same_block:
  "andThen (bitset_set_range True 0 4 (bitset_empty 8 :: 8 bitset)) (bitset_test 0) = Inr False \<and>
   andThen (bitset_set_range False 0 4 (bitset_empty 8 :: 8 bitset)) (bitset_test 0) = Inr False \<and>
   andThen (andThen (dynamic_bitset junk 8 :: ub + 8 dynamic_bitset) (dynamic_bitset_set_range 0 4))
     (dynamic_bitset_test 0) = Inr False"
  by (simp add: run_defs bitset_set_range_def set_range_blocks_def set_bits_def bitset_test_def
      dynamic_bitset_def dynamic_bitset_clear_all_def dynamic_bitset_set_range_def
      dynamic_bitset_test_def)

text \<open>
  Claim C3. \<open>push_back(v)\<close> is claimed to add one bit of value \<open>v\<close>, and a following
  \<open>pop_back()\<close> to restore the size. When the size is a multiple of the block width,
  \<open>push_back\<close> copies one block more than the old array holds and then shifts by
  \<open>m_partial_size - 1 = -1\<close>: undefined behaviour both on a bitset of 8 bits and on
  an empty one. \<open>pop_back()\<close> on a bitset of 9 bits, the size a working
  \<open>push_back\<close> would produce from 8, leaves a size of 7.
\<close>

theorem push_back_at_block_boundary:
  "andThen (dynamic_bitset junk 8 :: ub + 8 dynamic_bitset) (dynamic_bitset_push_back junk v)
     = Inl OutOfBounds \<and>
   dynamic_bitset_push_back junk v (dynamic_bitset_default :: 8 dynamic_bitset) = Inl BadShift \<and>
   andThen (dynamic_bitset junk 9 :: ub + 8 dynamic_bitset) (dynamic_bitset_pop_back junk)
     = Inr \<lparr>dyn_partial_size = 0, dyn_storage_size = 1, dyn_size = 7, dyn_data = Some [0]\<rparr>"
  by (simp add: run_defs dynamic_bitset_def dynamic_bitset_clear_all_def
      dynamic_bitset_push_back_def dynamic_bitset_pop_back_def dynamic_bitset_default_def)

text \<open>
  Claim C4. Every mutating operation of the dynamic bitset is claimed to keep
  \<open>m_storage_size = ceil(m_size / W)\<close> and \<open>m_data\<close> null exactly when \<open>m_size = 0\<close>.
  The bitset \<open>dynamic_bitset(1)\<close> satisfies both; after \<open>pop_back()\<close> its size has
  wrapped to \<open>2 ^ 64 - 1\<close> with no storage and a null \<open>m_data\<close>.
\<close>

theorem pop_back_breaks_invariant:
  "(dynamic_bitset junk 1 :: ub + 8 dynamic_bitset)
     = Inr \<lparr>dyn_partial_size = 1, dyn_storage_size = 1, dyn_size = 1, dyn_data = Some [0]\<rparr> \<and>
   dynamic_bitset_invariant
     (\<lparr>dyn_partial_size = 1, dyn_storage_size = 1, dyn_size = 1, dyn_data = Some [0]\<rparr>
        :: 8 dynamic_bitset) \<and>
   dynamic_bitset_pop_back junk
     (\<lparr>dyn_partial_size = 1, dyn_storage_size = 1, dyn_size = 1, dyn_data = Some [0]\<rparr>
        :: 8 dynamic_bitset)
     = Inr \<lparr>dyn_partial_size = 0, dyn_storage_size = 0, dyn_size = 2 ^ 64 - 1, dyn_data = None\<rparr> \<and>
   \<not> dynamic_bitset_invariant
     (\<lparr>dyn_partial_size = 0, dyn_storage_size = 0, dyn_size = 2 ^ 64 - 1, dyn_data = None\<rparr>
        :: 8 dynamic_bitset)"
  by (simp add: run_defs dynamic_bitset_def dynamic_bitset_clear_all_def
      dynamic_bitset_invariant_def dynamic_bitset_pop_back_def)

text \<open>
  Claim C5. \<open>count()\<close> after \<open>set()\<close> is claimed to be the number of bits \<open>N\<close> also
  when \<open>N\<close> is not a multiple of the block width. On a bitset of 5 bits in one 8-bit
  block, \<open>set()\<close> fills the whole block and \<open>count()\<close> returns 8, for the fixed-size
  bitset on both branches and for the dynamic bitset.
\<close>

theorem count_after_set_partial_block:
  "andThen (bitset_set_all True (bitset_empty 5 :: 8 bitset)) bitset_count = Inr 8 \<and>
   andThen (bitset_set_all False (bitset_empty 5 :: 8 bitset)) bitset_count = Inr 8 \<and>
   andThen (andThen (dynamic_bitset junk 5 :: ub + 8 dynamic_bitset) dynamic_bitset_set_all)
     dynamic_bitset_count = Inr 8"
  by (simp add: run_defs bitset_set_all_def bitset_count_def dynamic_bitset_def
      dynamic_bitset_clear_all_def dynamic_bitset_set_all_def dynamic_bitset_count_def)

text \<open>
  Claim C6. \<open>a != b\<close> is claimed to be the negation of \<open>a == b\<close>. For the 16-bit
  bitsets with blocks \<open>[1, 2]\<close> and \<open>[1, 3]\<close> both operators return false; for a
  dynamic bitset of 8 zero bits compared with itself both return true.
\<close>

theorem ne_is_not_negation_of_eq:
  "bitset_eq \<lparr>Size = 16, m_data = [1, 2 :: 8 word]\<rparr> \<lparr>Size = 16, m_data = [1, 3 :: 8 word]\<rparr>
     = Inr False \<and>
   bitset_ne \<lparr>Size = 16, m_data = [1, 2 :: 8 word]\<rparr> \<lparr>Size = 16, m_data = [1, 3 :: 8 word]\<rparr>
     = Inr False \<and>
   andThen (dynamic_bitset junk 8 :: ub + 8 dynamic_bitset) (\<lambda>s. dynamic_bitset_eq s s) = Inr True \<and>
   andThen (dynamic_bitset junk 8 :: ub + 8 dynamic_bitset) (\<lambda>s. dynamic_bitset_ne s s) = Inr True"
  by (simp add: run_defs bitset_eq_def bitset_ne_def dynamic_bitset_def
      dynamic_bitset_clear_all_def dynamic_bitset_eq_def dynamic_bitset_ne_def)

text \<open>
  Claim C7. Shifting a block-aligned bitset left by the block width is claimed to move
  block \<open>i\<close> to block \<open>i + 1\<close>, for \<open>operator<<\<close> and for \<open>operator<<=\<close>. On the
  16-bit bitset with blocks \<open>[1, 0]\<close> and a shift by 8, \<open>operator<<\<close> yields
  \<open>[0, 1]\<close>, and \<open>operator<<=\<close> yields \<open>[0, 0]\<close>.
\<close>

theorem shl_assign_by_block_width:
  "bitset_shl 8 \<lparr>Size = 16, m_data = [1, 0 :: 8 word]\<rparr>
     = Inr \<lparr>Size = 16, m_data = [0, 1]\<rparr> \<and>
   bitset_shl_assign 8 \<lparr>Size = 16, m_data = [1, 0 :: 8 word]\<rparr>
     = Inr \<lparr>Size = 16, m_data = [0, 0]\<rparr>"
  by code_simp

text \<open>
  Claim C8. Constructing a bitset from a string of \<open>Size\<close> characters and calling
  \<open>to_string\<close> is claimed to give the string back. The result of \<open>to_string\<close> has
  \<open>Size + 1\<close> characters, the last of value 0; and for 9 bits in 8-bit blocks the
  character of bit 8 is read from bit 0 of block 0.
\<close>

theorem to_string_appends_nul:
  "andThen (bitset_of_string 8 ''10000000'' CHR ''1'' :: ub + 8 bitset)
     (bitset_to_string CHR ''1'' CHR ''0'') = Inr (''10000000'' @ [CHR 0x00]) \<and>
   andThen (bitset_of_string 9 ''100000000'' CHR ''1'' :: ub + 8 bitset)
     (bitset_to_string CHR ''1'' CHR ''0'') = Inr (''100000001'' @ [CHR 0x00])"
  by code_simp

text \<open>
  Claim C9. Converting to a bitset of a wider block type is claimed to pack
  \<open>diff = sizeof(dst) / sizeof(src)\<close> consecutive source blocks into each destination
  block, so that the 8-bit blocks \<open>[0x01, 0x02]\<close> become the 16-bit block \<open>0x0201\<close>.
  The fixed-size bitset does so. The conversion constructor of the dynamic bitset
  takes \<open>m_storage_size\<close> from the integer quotient
  \<open>sizeof(OtherBlockType) / sizeof(BlockType)\<close>, which is 0 for a wider block type: from
  the 16 bits \<open>[0x01, 0x02]\<close> in 8-bit blocks it builds a bitset of 16 bits with no
  block at all, and \<open>test(0)\<close> on it reads outside the array.
\<close>

theorem dynamic_widening_conversion_loses_blocks:
  "(dynamic_bitset_of_other junk inexact
      (\<lparr>dyn_partial_size = 0, dyn_storage_size = 2, dyn_size = 16,
        dyn_data = Some [0x01, 0x02]\<rparr> :: 8 dynamic_bitset) :: ub + 16 dynamic_bitset)
     = Inr \<lparr>dyn_partial_size = 0, dyn_storage_size = 0, dyn_size = 16, dyn_data = Some []\<rparr> \<and>
   dynamic_bitset_test 0
     (\<lparr>dyn_partial_size = 0, dyn_storage_size = 0, dyn_size = 16, dyn_data = Some []\<rparr>
        :: 16 dynamic_bitset) = Inl OutOfBounds"
  by (simp add: run_defs dynamic_bitset_of_other_def dynamic_bitset_from_other_def
      dynamic_bitset_clear_all_def dynamic_bitset_test_def)

text \<open>
  Claim C10. \<open>dynamic_bitset(n)\<close> is zero-initialised whatever the fresh array held:
  \<open>test(i)\<close> is false for every \<open>i < n\<close>, \<open>none()\<close> is true and \<open>count()\<close> is 0.
  (The block type has at least one byte.)
\<close>

theorem dynamic_bitset_zero_initialised:
  assumes "8 \<le> LENGTH('a::len)"
  shows "\<exists>s. (dynamic_bitset junk n :: ub + 'a dynamic_bitset) = Inr s \<and>
           dyn_size s = n \<and>
           (\<forall>i<n. dynamic_bitset_test i s = Inr False) \<and>
           dynamic_bitset_none s = Inr True \<and>
           dynamic_bitset_count s = Inr 0"
proof -
  let ?W = "LENGTH('a)"
  define st where "st = n div ?W + (if n mod ?W \<noteq> 0 then 1 else 0)"
  define s :: "'a dynamic_bitset"
    where "s = \<lparr>dyn_partial_size = n mod ?W, dyn_storage_size = st, dyn_size = n,
                  dyn_data = Some (replicate st 0)\<rparr>"
  have result: "(dynamic_bitset junk n :: ub + 'a dynamic_bitset) = Inr s"
    unfolding s_def st_def using assms by (rule dynamic_bitset_result)
  have blocks: "i div ?W < st" if "i < n" for i
    unfolding st_def using that by (rule div_lt_blocks) simp
  have test: "dynamic_bitset_test i s = Inr False" if "i < n" for i
    using blocks [OF that]
    by (simp add: dynamic_bitset_test_def s_def deref_def at_replicate)
  have none: "dynamic_bitset_none s = Inr True"
  proof -
    let ?hi = "size_sub st (if n mod ?W \<noteq> 0 then 1 else 0)"
    have "(if n mod ?W \<noteq> 0 then 1 else 0) \<le> st"
      by (simp add: st_def)
    then have hi: "?hi \<le> st"
      using size_sub_le [of "if n mod ?W \<noteq> 0 then 1 else 0" st] by simp
    have full: "for_loop_ret 0 ?hi
        (\<lambda>i u. andThen (deref (dyn_data s)) (\<lambda>a. andThen (at a i)
           (\<lambda>w. Inr (if w \<noteq> 0 then Return False else Next u)))) () = Inr (Next ())"
      using hi by (intro for_loop_ret_unchanged) (simp add: s_def deref_def at_replicate)
    have last_block: "n div ?W < st" if "n mod ?W \<noteq> 0"
      using that by (simp add: st_def)
    have part: "for_loop_ret 0 (n mod ?W)
        (\<lambda>i u. andThen (deref (dyn_data s))
           (\<lambda>a. andThen (at a (dyn_size s div ?W))
              (\<lambda>w. Inr (if w AND push_bit i 1 \<noteq> 0 then Return False else Next u)))) ()
        = Inr (Next ())" if "n mod ?W \<noteq> 0"
      using last_block [OF that]
      by (intro for_loop_ret_unchanged) (simp add: s_def deref_def at_replicate)
    show ?thesis
      unfolding dynamic_bitset_none_def
      using full part by (simp add: s_def del: push_bit_of_1)
  qed
  have count: "dynamic_bitset_count s = Inr 0"
    unfolding dynamic_bitset_count_def
    by (intro for_loop_unchanged) (simp add: s_def deref_def at_replicate count_while_zero)
  have "dyn_size s = n"
    by (simp add: s_def)
  with result test none count show ?thesis
    by (intro exI [of _ s]) simp
qed

theorem dynamic_bitset_zero_initialised_witness:
  "8 \<le> LENGTH(8) \<and>
   (\<exists>s. (dynamic_bitset (\<lambda>k. 0xAB) 13 :: ub + 8 dynamic_bitset) = Inr s \<and>
      dyn_size s = 13 \<and>
      (\<forall>i<13. dynamic_bitset_test i s = Inr False) \<and>
      dynamic_bitset_none s = Inr True \<and>
      dynamic_bitset_count s = Inr 0)"
proof -
  have h: "8 \<le> LENGTH(8)"
    by simp
  show ?thesis
    by (rule conjI [OF h dynamic_bitset_zero_initialised [OF h]])
qed

end
